theory Spec2Isabelle
  imports Main "HOL-Library.Word" "HOL-Library.Char_ord" "HOL-Library.List_Lexorder"
    "HOL-Library.Multiset"
begin

section \<open>Paths: the functions of Go's \<open>path/filepath\<close> that the program calls (Unix)\<close>

text \<open>
  Go strings are byte sequences; \<open>string\<close> (a list of 8-bit characters) is the same
  thing.  The separator is \<open>/\<close>.  \<open>splitSlash\<close> cuts a path at every separator, so that
  \<open>a//b\<close> has an empty middle component.
\<close>

fun splitSlash :: "string \<Rightarrow> string list" where
  "splitSlash [] = [[]]"
| "splitSlash (c # cs) =
     (if c = CHR ''/'' then [] # splitSlash cs
      else (case splitSlash cs of [] \<Rightarrow> [[c]] | w # ws \<Rightarrow> (c # w) # ws))"

fun joinSlash :: "string list \<Rightarrow> string" where
  "joinSlash [] = []"
| "joinSlash [w] = w"
| "joinSlash (w # ws) = w @ ''/'' @ joinSlash ws"

text \<open>
  \<open>filepath.Clean\<close> works through the components from left to right: empty components
  and \<open>.\<close> are dropped, \<open>..\<close> removes the component before it when there is one that is
  not itself \<open>..\<close>, is dropped at the root, and is kept otherwise.  The components kept
  so far are held in reverse.  An empty result is \<open>.\<close>.
\<close>

definition clean_elem :: "bool \<Rightarrow> string list \<Rightarrow> string \<Rightarrow> string list" where
  "clean_elem rooted out c =
     (if c = [] \<or> c = ''.'' then out
      else if c = ''..'' then
        (case out of
           [] \<Rightarrow> if rooted then [] else [''..'']
         | t # ts \<Rightarrow> if t = ''..'' then ''..'' # out else ts)
      else c # out)"

definition Clean :: "string \<Rightarrow> string" where
  "Clean path =
     (if path = [] then ''.''
      else
        let rooted = (hd path = CHR ''/'');
            out = rev (foldl (clean_elem rooted) [] (splitSlash path));
            res = (if rooted then ''/'' else []) @ joinSlash out
        in if res = [] then ''.'' else res)"

text \<open>
  \<open>filepath.Join\<close> ignores leading empty elements, joins the rest with the separator and
  cleans the result; with no non-empty element the result is the empty string.
\<close>

definition Join :: "string list \<Rightarrow> string" where
  "Join elem =
     (case dropWhile (\<lambda>e. e = []) elem of
        [] \<Rightarrow> []
      | es \<Rightarrow> Clean (joinSlash es))"

text \<open>
  \<open>filepath.Dir\<close> cleans what stands before the last element (up to and including the
  last separator); \<open>filepath.Base\<close> is the last element after trailing separators are
  removed; \<open>filepath.Ext\<close> is the suffix of the last element that starts at its last dot.
\<close>

definition Dir :: "string \<Rightarrow> string" where
  "Dir path = Clean (rev (dropWhile (\<lambda>c. c \<noteq> CHR ''/'') (rev path)))"

definition Base :: "string \<Rightarrow> string" where
  "Base path =
     (if path = [] then ''.''
      else
        let stripped = dropWhile (\<lambda>c. c = CHR ''/'') (rev path);
            name = rev (takeWhile (\<lambda>c. c \<noteq> CHR ''/'') stripped)
        in if name = [] then ''/'' else name)"

definition Ext :: "string \<Rightarrow> string" where
  "Ext path =
     (let name = takeWhile (\<lambda>c. c \<noteq> CHR ''/'') (rev path)
      in if CHR ''.'' \<in> set name
         then CHR ''.'' # rev (takeWhile (\<lambda>c. c \<noteq> CHR ''.'') name)
         else [])"

section \<open>Data model\<close>

text \<open>The conflict kinds, in the order of the \<open>iota\<close> constants.\<close>

datatype conflict = emptyFilename | fileExists | overwritingNewPath

record Conflict =
  source :: "string list"
  target :: string

record Change =
  BaseDir :: string
  Source :: string
  Target :: string
  IsDir :: bool

text \<open>
  \<open>op.conflicts\<close> is a Go map from the kind to a slice.  Reading a missing key gives the
  nil slice, and \<open>len\<close> of the map counts the keys present.
\<close>

type_synonym conflicts = "conflict \<rightharpoonup> Conflict list"

definition conflicts_at :: "conflicts \<Rightarrow> conflict \<Rightarrow> Conflict list" where
  "conflicts_at cf k = (case cf k of None \<Rightarrow> [] | Some l \<Rightarrow> l)"

definition conflicts_append :: "conflicts \<Rightarrow> conflict \<Rightarrow> Conflict \<Rightarrow> conflicts" where
  "conflicts_append cf k c = cf(k \<mapsto> conflicts_at cf k @ [c])"

definition len_conflicts :: "conflicts \<Rightarrow> nat" where
  "len_conflicts cf =
     length (filter (\<lambda>k. cf k \<noteq> None) [emptyFilename, fileExists, overwritingNewPath])"

text \<open>
  The local map \<open>m\<close> of \<open>DetectConflicts\<close> sends a full target path to the entries
  (full source path, index into \<open>op.matches\<close>) that resolve to it.  It is kept as an
  association list with one pair per key.
\<close>

type_synonym groups = "(string \<times> (string \<times> nat) list) list"

definition groups_at :: "groups \<Rightarrow> string \<Rightarrow> (string \<times> nat) list" where
  "groups_at m k = (case map_of m k of None \<Rightarrow> [] | Some v \<Rightarrow> v)"

fun groups_append :: "groups \<Rightarrow> string \<Rightarrow> string \<times> nat \<Rightarrow> groups" where
  "groups_append [] k x = [(k, [x])]"
| "groups_append ((k', v) # m) k x =
     (if k' = k then (k', v @ [x]) # m else (k', v) # groups_append m k x)"

section \<open>The operating system, as the program sees it\<close>

text \<open>
  \<open>os.Stat\<close> either succeeds, fails with an error for which
  \<open>errors.Is(err, os.ErrNotExist)\<close> holds, or fails with another error (a permission
  error, for instance).
\<close>

datatype stat_error = NoError | NotExist | OtherError

text \<open>
  The file system is a state of some type \<open>'fs\<close>; the calls the program makes on it are
  the fields of a record.  An \<open>os_Rename\<close> or a \<open>readLog\<close> that returns an error is
  \<open>None\<close>.

  \<^item> \<open>getNewPath\<close> is a function of this repository that is not among the sources at
    hand.  It is given the full target path, the base directory and the map \<open>m\<close> (or
    nil), and returns a name relative to the base directory.
  \<^item> \<open>range_order\<close> is the order in which \<open>for k, v := range m\<close> visits the keys of
    \<open>m\<close>, a rearrangement of the keys that Go leaves unspecified.  What is proved
    below for every \<open>range_order\<close> holds for every such order.
  \<^item> \<open>writeLog\<close> stands for creating the output file and writing the JSON record to it
    (the flag tells whether all of it succeeded), \<open>readLog\<close> for reading a file and
    decoding the list of changes of the record in it.
  \<^item> \<open>os_MkdirAll\<close> may have created some directories when it fails, so it returns a
    state in both cases; a failed \<open>os_Rename\<close> changes nothing.
\<close>

record 'fs sys =
  os_Stat :: "'fs \<Rightarrow> string \<Rightarrow> stat_error"
  os_MkdirAll :: "'fs \<Rightarrow> string \<Rightarrow> bool \<times> 'fs"
  os_Rename :: "'fs \<Rightarrow> string \<Rightarrow> string \<Rightarrow> 'fs option"
  getNewPath :: "'fs \<Rightarrow> string \<Rightarrow> string \<Rightarrow> groups option \<Rightarrow> string"
  range_order :: "string list \<Rightarrow> string list"
  writeLog :: "'fs \<Rightarrow> string \<Rightarrow> Change list \<Rightarrow> bool \<times> 'fs"
  readLog :: "'fs \<Rightarrow> string \<Rightarrow> Change list option"

section \<open>\<open>DetectConflicts\<close>\<close>

record dstate =
  d_matches :: "Change list"
  d_conflicts :: conflicts
  d_m :: groups

text \<open>
  One round of the first loop, \<open>for i, ch := range op.matches\<close>.  \<open>ch\<close> is the copy of
  element \<open>i\<close> taken when the round starts.
\<close>

definition check_match :: "'fs sys \<Rightarrow> 'fs \<Rightarrow> bool \<Rightarrow> dstate \<Rightarrow> nat \<times> Change \<Rightarrow> dstate" where
  "check_match sy fs fixConflicts st ich =
     (let i = fst ich; ch = snd ich;
          src = Join [BaseDir ch, Source ch];
          tgt = Join [BaseDir ch, Target ch]
      in
        if Target ch = ''.'' then
          st\<lparr>d_conflicts :=
                conflicts_append (d_conflicts st) emptyFilename \<lparr>source = [src], target = tgt\<rparr>,
             d_matches :=
                (if fixConflicts
                 then (d_matches st)[i := (d_matches st ! i)\<lparr>Target := Source ch\<rparr>]
                 else d_matches st)\<rparr>
        else if os_Stat sy fs tgt \<noteq> NotExist then
          (let cf = conflicts_append (d_conflicts st) fileExists \<lparr>source = [src], target = tgt\<rparr>
           in if fixConflicts then
                (let str = getNewPath sy fs tgt (BaseDir ch) None;
                     fullPath = Join [BaseDir ch, str]
                 in st\<lparr>d_conflicts := cf,
                       d_matches := (d_matches st)[i := (d_matches st ! i)\<lparr>Target := str\<rparr>],
                       d_m := groups_append (d_m st) fullPath (src, i)\<rparr>)
              else st\<lparr>d_conflicts := cf, d_m := groups_append (d_m st) tgt (src, i)\<rparr>)
        else st\<lparr>d_m := groups_append (d_m st) tgt (src, i)\<rparr>)"

text \<open>
  The inner loop of the second loop: every entry of a group but the first gets a new
  target, and the new full path becomes a key of \<open>m\<close> (with no entries) when it is not
  one yet.
\<close>

definition fix_item :: "'fs sys \<Rightarrow> 'fs \<Rightarrow> string \<Rightarrow> dstate \<Rightarrow> string \<times> nat \<Rightarrow> dstate" where
  "fix_item sy fs k st item =
     (let idx = snd item;
          base = BaseDir (d_matches st ! idx);
          str = getNewPath sy fs k base (Some (d_m st));
          pt = Join [base, str]
      in st\<lparr>d_m := (if map_of (d_m st) pt = None then d_m st @ [(pt, [])] else d_m st),
            d_matches := (d_matches st)[idx := (d_matches st ! idx)\<lparr>Target := str\<rparr>]\<rparr>)"

text \<open>One round of the second loop, \<open>for k, v := range m\<close>.\<close>

definition report_duplicate :: "'fs sys \<Rightarrow> 'fs \<Rightarrow> bool \<Rightarrow> dstate \<Rightarrow> string \<Rightarrow> dstate" where
  "report_duplicate sy fs fixConflicts st k =
     (let v = groups_at (d_m st) k
      in if length v > 1 then
           (let st' = st\<lparr>d_conflicts :=
                         conflicts_append (d_conflicts st) overwritingNewPath
                           \<lparr>source = map fst v, target = k\<rparr>\<rparr>
            in if fixConflicts then foldl (fix_item sy fs k) st' (tl v) else st')
         else st)"

text \<open>
  The keys added to \<open>m\<close> during the second loop have no entries, so visiting them does
  nothing: the loop runs over the keys that \<open>m\<close> has when it starts.
\<close>

definition detect_first :: "'fs sys \<Rightarrow> 'fs \<Rightarrow> bool \<Rightarrow> Change list \<Rightarrow> dstate" where
  "detect_first sy fs fixConflicts ms =
     foldl (check_match sy fs fixConflicts)
       \<lparr>d_matches = ms, d_conflicts = Map.empty, d_m = []\<rparr>
       (zip [0..<length ms] ms)"

definition DetectConflicts ::
  "'fs sys \<Rightarrow> 'fs \<Rightarrow> bool \<Rightarrow> Change list \<Rightarrow> Change list \<times> conflicts" where
  "DetectConflicts sy fs fixConflicts ms =
     (let st1 = detect_first sy fs fixConflicts ms;
          st2 = foldl (report_duplicate sy fs fixConflicts) st1
                  (range_order sy (map fst (d_m st1)))
      in (d_matches st2, d_conflicts st2))"

section \<open>\<open>ReportConflicts\<close>\<close>

text \<open>
  The rows handed to \<open>printTable\<close>: one per empty-filename conflict, one per
  existing-path conflict, and one per source of every duplicate-target conflict.  The
  third column is the label; its colour and the leading cross mark are left to the
  renderer.
\<close>

definition ReportConflicts :: "conflicts \<Rightarrow> string list list" where
  "ReportConflicts cf =
     map (\<lambda>v. [concat (source v), [], ''[Empty filename]'']) (conflicts_at cf emptyFilename) @
     map (\<lambda>v. [concat (source v), target v, ''[Path already exists]''])
       (conflicts_at cf fileExists) @
     concat (map (\<lambda>v. map (\<lambda>s. [s, target v, ''[Overwriting newly renamed path]'']) (source v))
       (conflicts_at cf overwritingNewPath))"

section \<open>\<open>Apply\<close>\<close>

text \<open>The fields of \<open>Operation\<close> that the functions modelled here read or write.\<close>

record Operation =
  matches :: "Change list"
  conflicts :: conflicts
  startNumber :: "64 word"
  exec :: bool
  fixConflicts :: bool
  includeDir :: bool
  ignoreExt :: bool
  undoFile :: string
  outputFile :: string

datatype error =
    ConflictError
  | ExecError string string
  | WriteError
  | MissingMapFile
  | ReadError
  | ExpandError
  | OpenError
  | CloseError

text \<open>
  What a run does to the outside, in order: the lines it prints, the table that
  \<open>ReportConflicts\<close> prints, the table that \<open>PrintChanges\<close> prints, and the calls
  \<open>os.MkdirAll\<close>, \<open>os.Rename\<close> and \<open>os.Create\<close> that it makes.
\<close>

datatype event =
    Println string
  | Eprintln string
  | ConflictsTable "string list list"
  | ChangesTable "string list list"
  | MkdirAll string
  | Rename string string
  | Create string

record 'fs outcome =
  err :: "error option"
  fs_after :: "'fs"
  trace :: "event list"
  op_after :: Operation

text \<open>
  One round of the loop \<open>for _, ch := range op.matches\<close> of \<open>Apply\<close> in execute mode:
  the directories of a target with a separator are made, then the entry is renamed.
  The trace \<open>tr\<close> grows by the calls made.
\<close>

definition apply_change ::
  "'fs sys \<Rightarrow> Change \<Rightarrow> 'fs \<Rightarrow> event list \<Rightarrow> error option \<times> 'fs \<times> event list" where
  "apply_change sy ch fs tr =
     (let src = Join [BaseDir ch, Source ch];
          tgt = Join [BaseDir ch, Target ch];
          made =
            (if CHR ''/'' \<in> set (Target ch)
             then (let r = os_MkdirAll sy fs (Dir (Target ch))
                   in (fst r, snd r, tr @ [MkdirAll (Dir (Target ch))]))
             else (True, fs, tr));
          fs1 = fst (snd made);
          tr1 = snd (snd made)
      in if \<not> fst made then (Some (ExecError src tgt), fs1, tr1)
         else
           (case os_Rename sy fs1 src tgt of
              None \<Rightarrow> (Some (ExecError src tgt), fs1, tr1 @ [Rename src tgt])
            | Some fs2 \<Rightarrow> (None, fs2, tr1 @ [Rename src tgt])))"

text \<open>
  The loop.  A failing call ends the run with the error that names the pair; what was
  renamed before stays renamed.  Without \<open>op.exec\<close> a round does nothing.
\<close>

fun apply_changes ::
  "'fs sys \<Rightarrow> bool \<Rightarrow> Change list \<Rightarrow> 'fs \<Rightarrow> event list \<Rightarrow> error option \<times> 'fs \<times> event list" where
  "apply_changes sy ex [] fs tr = (None, fs, tr)"
| "apply_changes sy ex (ch # chs) fs tr =
     (if ex then
        (case apply_change sy ch fs tr of
           (Some e, fs1, tr1) \<Rightarrow> (Some e, fs1, tr1)
         | (None, fs1, tr1) \<Rightarrow> apply_changes sy ex chs fs1 tr1)
      else apply_changes sy ex chs fs tr)"

text \<open>
  \<open>WriteToFile\<close> creates (or truncates) the output file and writes the matches to it;
  an error of any of its steps is the error it returns.
\<close>

definition WriteToFile :: "'fs sys \<Rightarrow> Operation \<Rightarrow> 'fs \<Rightarrow> error option \<times> 'fs" where
  "WriteToFile sy op fs =
     (let r = writeLog sy fs (outputFile op) (matches op)
      in (if fst r then None else Some WriteError, snd r))"

definition PrintChanges :: "Change list \<Rightarrow> string list list" where
  "PrintChanges ms =
     map (\<lambda>v. [Join [BaseDir v, Source v], Join [BaseDir v, Target v], ''ok'']) ms"

definition Apply :: "'fs sys \<Rightarrow> Operation \<Rightarrow> 'fs \<Rightarrow> 'fs outcome" where
  "Apply sy op fs =
     (if matches op = [] then
        \<lparr>err = None, fs_after = fs, trace = [Println ''Failed to match any files''],
         op_after = op\<rparr>
      else
        let dc = DetectConflicts sy fs (fixConflicts op) (matches op);
            op1 = op\<lparr>matches := fst dc, conflicts := snd dc\<rparr>
        in if len_conflicts (conflicts op1) > 0 \<and> \<not> fixConflicts op1 then
             \<lparr>err = Some ConflictError, fs_after = fs,
              trace = [ConflictsTable (ReportConflicts (conflicts op1)),
                       Eprintln ''Conflict detected! Please resolve before proceeding''],
              op_after = op1\<rparr>
           else
             (case apply_changes sy (exec op1) (matches op1) fs [] of
                (Some e, fs1, tr) \<Rightarrow> \<lparr>err = Some e, fs_after = fs1, trace = tr, op_after = op1\<rparr>
              | (None, fs1, tr) \<Rightarrow>
                  if exec op1 \<and> matches op1 \<noteq> [] \<and> outputFile op1 \<noteq> [] then
                    (let w = WriteToFile sy op1 fs1
                     in \<lparr>err = fst w, fs_after = snd w,
                         trace = tr @ [Create (outputFile op1)], op_after = op1\<rparr>)
                  else if \<not> exec op1 \<and> matches op1 \<noteq> [] then
                    \<lparr>err = None, fs_after = fs1,
                     trace = tr @ [ChangesTable (PrintChanges (matches op1)),
                                   Println ''Append the -x flag to apply the above changes''],
                     op_after = op1\<rparr>
                  else \<lparr>err = None, fs_after = fs1, trace = tr, op_after = op1\<rparr>))"

section \<open>Sorting\<close>

text \<open>
  \<open>sort.SliceStable\<close> (Go's standard library) sorts a slice of at most 20 elements, its
  block size, by one pass of insertion sort: element \<open>i\<close> moves left for as long as
  \<open>less\<close> puts it before its left neighbour.  Longer slices are sorted block by block
  and the blocks merged.  For a \<open>less\<close> that is a strict weak ordering every stable sort
  gives the same result, so the insertion sort below is the result at every length;
  for any other \<open>less\<close> it is the result for at most 20 elements only.
\<close>

fun siftLeft :: "('a \<Rightarrow> 'a \<Rightarrow> bool) \<Rightarrow> nat \<Rightarrow> nat \<Rightarrow> 'a list \<Rightarrow> 'a list" where
  "siftLeft lessf a 0 xs = xs"
| "siftLeft lessf a (Suc j) xs =
     (if Suc j > a \<and> lessf (xs ! Suc j) (xs ! j)
      then siftLeft lessf a j (xs[Suc j := xs ! j, j := xs ! Suc j])
      else xs)"

definition insertionSort_func :: "('a \<Rightarrow> 'a \<Rightarrow> bool) \<Rightarrow> 'a list \<Rightarrow> nat \<Rightarrow> nat \<Rightarrow> 'a list" where
  "insertionSort_func lessf xs a b = foldl (\<lambda>ys i. siftLeft lessf a i ys) xs [a + 1..<b]"

definition SliceStable :: "('a \<Rightarrow> 'a \<Rightarrow> bool) \<Rightarrow> 'a list \<Rightarrow> 'a list" where
  "SliceStable lessf xs = insertionSort_func lessf xs 0 (length xs)"

text \<open>
  What one round of the insertion sort does, said on lists: \<open>gins lessf x P\<close> puts \<open>x\<close>
  behind the sorted part \<open>P\<close> and moves it to the left past every element that
  \<open>lessf\<close> puts after it, up to the first one that it does not.  \<open>rins\<close> is the same on
  the reversed list.
\<close>

fun rins :: "('a \<Rightarrow> 'a \<Rightarrow> bool) \<Rightarrow> 'a \<Rightarrow> 'a list \<Rightarrow> 'a list" where
  "rins lessf x [] = [x]"
| "rins lessf x (y # ys) = (if lessf x y then y # rins lessf x ys else x # y # ys)"

definition gins :: "('a \<Rightarrow> 'a \<Rightarrow> bool) \<Rightarrow> 'a \<Rightarrow> 'a list \<Rightarrow> 'a list" where
  "gins lessf x P = rev (rins lessf x (rev P))"

text \<open>The comparison of \<open>SortMatches\<close>, on the elements at positions \<open>i\<close> and \<open>j\<close>.\<close>

definition sortMatches_less :: "Change \<Rightarrow> Change \<Rightarrow> bool" where
  "sortMatches_less mi mj = (if \<not> IsDir mi then True else BaseDir mi > BaseDir mj)"

definition SortMatches :: "Operation \<Rightarrow> Operation" where
  "SortMatches op = op\<lparr>matches := SliceStable sortMatches_less (matches op)\<rparr>"

section \<open>\<open>Undo\<close>\<close>

definition swap_change :: "Change \<Rightarrow> Change" where
  "swap_change v = v\<lparr>Source := Target v, Target := Source v\<rparr>"

definition Undo :: "'fs sys \<Rightarrow> Operation \<Rightarrow> 'fs \<Rightarrow> 'fs outcome" where
  "Undo sy op fs =
     (if undoFile op = [] then
        \<lparr>err = Some MissingMapFile, fs_after = fs, trace = [], op_after = op\<rparr>
      else
        case readLog sy fs (undoFile op) of
          None \<Rightarrow> \<lparr>err = Some ReadError, fs_after = fs, trace = [], op_after = op\<rparr>
        | Some operations \<Rightarrow>
            Apply sy
              (op\<lparr>matches :=
                    SliceStable (\<lambda>mi mj. BaseDir mi < BaseDir mj) (map swap_change operations)\<rparr>)
              fs)"

section \<open>Numbering\<close>

text \<open>
  \<open>indexRegex\<close> is \<open>%([0-9]?)+d\<close>: a percent sign, any number of digits, and \<open>d\<close>.  From
  a given start there is at most one match, since \<open>d\<close> is not a digit.
  \<open>index_match_at s\<close> is the length of the match that starts \<open>s\<close>.
\<close>

definition is_digit :: "char \<Rightarrow> bool" where
  "is_digit c = (c \<in> set ''0123456789'')"

definition index_match_at :: "string \<Rightarrow> nat option" where
  "index_match_at s =
     (case s of
        [] \<Rightarrow> None
      | c # r \<Rightarrow>
          if c = CHR ''%'' then
            (case dropWhile is_digit r of
               [] \<Rightarrow> None
             | e # _ \<Rightarrow> if e = CHR ''d'' then Some (length (takeWhile is_digit r) + 2) else None)
          else None)"

text \<open>\<open>indexRegex.Find\<close>: the text of the leftmost match.\<close>

fun index_Find :: "string \<Rightarrow> string option" where
  "index_Find [] = None"
| "index_Find (c # cs) =
     (case index_match_at (c # cs) of
        Some n \<Rightarrow> Some (take n (c # cs))
      | None \<Rightarrow> index_Find cs)"

text \<open>
  \<open>indexRegex.ReplaceAllString(str, r)\<close> replaces every match, from left to right and
  without overlap.  \<open>skip\<close> counts the characters of the current match still to pass.
  The replacement is copied as it is: Go expands \<open>$\<close> in it, and the text that
  \<open>Replace\<close> passes never has one.
\<close>

fun index_replace :: "nat \<Rightarrow> string \<Rightarrow> string \<Rightarrow> string" where
  "index_replace skip [] r = []"
| "index_replace (Suc skip) (c # cs) r = index_replace skip cs r"
| "index_replace 0 (c # cs) r =
     (case index_match_at (c # cs) of
        Some n \<Rightarrow> r @ index_replace (n - 1) cs r
      | None \<Rightarrow> c # index_replace 0 cs r)"

definition index_ReplaceAllString :: "string \<Rightarrow> string \<Rightarrow> string" where
  "index_ReplaceAllString str r = index_replace 0 str r"

text \<open>\<open>strconv.Itoa\<close>, also what \<open>%d\<close> prints.\<close>

fun digits10 :: "nat \<Rightarrow> string" where
  "digits10 n =
     (if n < 10 then [char_of (48 + n)]
      else digits10 (n div 10) @ [char_of (48 + n mod 10)])"

declare digits10.simps [simp del]

definition Itoa :: "int \<Rightarrow> string" where
  "Itoa v = (if v < 0 then CHR ''-'' # digits10 (nat (- v)) else digits10 (nat v))"

text \<open>
  \<open>fmt.Sprintf\<close> on a format that is one match of \<open>indexRegex\<close>, with one \<open>int\<close>.  The
  leading zeros are the zero flag; the digits after them are the width, read by
  \<open>parsenum\<close>, which gives up on a number beyond a million: the verb is then never
  reached.  With the zero flag and a width the digits are filled with zeros up to the
  width, less one for a minus sign; with a width alone the text is filled with blanks
  on the left.
\<close>

fun parsenum :: "string \<Rightarrow> nat \<Rightarrow> nat option" where
  "parsenum [] num = Some num"
| "parsenum (c # cs) num =
     (if num > 1000000 then None else parsenum cs (num * 10 + (of_char c - 48)))"

definition fmtInteger :: "int \<Rightarrow> bool \<Rightarrow> nat \<Rightarrow> string" where
  "fmtInteger v zero wid =
     (let ds = digits10 (nat \<bar>v\<bar>);
          sign = (if v < 0 then ''-'' else [])
      in if zero then
           (let prec = (if v < 0 then wid - 1 else wid)
            in sign @ replicate (prec - length ds) CHR ''0'' @ ds)
         else replicate (wid - length (sign @ ds)) CHR '' '' @ sign @ ds)"

definition Sprintf :: "string \<Rightarrow> int \<Rightarrow> string" where
  "Sprintf format v =
     (let ds = butlast (tl format);
          zero = (ds \<noteq> [] \<and> hd ds = CHR ''0'');
          ws = dropWhile (\<lambda>c. c = CHR ''0'') ds
      in if ws = [] then Itoa v
         else
           (case parsenum ws 0 of
              None \<Rightarrow> ''%!(NOVERB)%!(EXTRA int='' @ Itoa v @ '')''
            | Some wid \<Rightarrow> fmtInteger v zero wid))"

text \<open>
  The numbering step of \<open>Replace\<close> for the match at position \<open>i\<close>: the first match of
  \<open>indexRegex\<close> is the format, and what it prints for \<open>op.startNumber + i\<close> (an addition
  of 64-bit integers) replaces every match.
\<close>

definition number_target :: "64 word \<Rightarrow> nat \<Rightarrow> string \<Rightarrow> string" where
  "number_target start i str =
     (case index_Find str of
        None \<Rightarrow> str
      | Some b \<Rightarrow> index_ReplaceAllString str (Sprintf b (sint (start + word_of_nat i))))"

section \<open>\<open>Replace\<close>\<close>

text \<open>
  The first part of a round of \<open>Replace\<close>, the substitution of the search pattern in
  the file name and the expansion of the variables by \<open>handleVariables\<close>, depends on
  the compiled pattern of the user and on the metadata of the file; it is the parameter
  \<open>expand\<close>, which gives the text before numbering or fails.  The rest of the round is
  below.  A failure ends the loop; the matches written before it stay written.
\<close>

fun replace_from ::
  "(Change \<Rightarrow> string option) \<Rightarrow> Operation \<Rightarrow> nat \<Rightarrow> Change list \<Rightarrow> error option \<times> Change list" where
  "replace_from expand op i [] = (None, [])"
| "replace_from expand op i (v # vs) =
     (let fileName = Base (Source v);
          dir = Dir (Source v);
          fileExt = Ext fileName
      in case expand v of
           None \<Rightarrow> (Some ExpandError, v # vs)
         | Some str0 \<Rightarrow>
             (let str1 = number_target (startNumber op) i str0;
                  str2 = (if ignoreExt op then str1 @ fileExt else str1);
                  r = replace_from expand op (Suc i) vs
              in (fst r, v\<lparr>Target := Join [dir, str2]\<rparr> # snd r)))"

definition Replace :: "(Change \<Rightarrow> string option) \<Rightarrow> Operation \<Rightarrow> error option \<times> Operation" where
  "Replace expand op =
     (let r = replace_from expand op 0 (matches op) in (fst r, op\<lparr>matches := snd r\<rparr>))"

section \<open>\<open>Run\<close>\<close>

text \<open>
  \<open>FindMatches\<close> filters \<open>op.paths\<close> with the compiled pattern of the user; it is the
  parameter \<open>findMatches\<close>.  The matches are sorted only when directories are included.
\<close>

definition Run ::
  "'fs sys \<Rightarrow> (Operation \<Rightarrow> Operation) \<Rightarrow> (Change \<Rightarrow> string option) \<Rightarrow> Operation \<Rightarrow> 'fs
     \<Rightarrow> 'fs outcome" where
  "Run sy findMatches expand op fs =
     (if undoFile op \<noteq> [] then Undo sy op fs
      else
        let op1 = findMatches op;
            op2 = (if includeDir op1 then SortMatches op1 else op1);
            r = Replace expand op2
        in case fst r of
             Some e \<Rightarrow> \<lparr>err = Some e, fs_after = fs, trace = [], op_after = snd r\<rparr>
           | None \<Rightarrow> Apply sy (snd r) fs)"

section \<open>\<open>replaceExifVariables\<close>\<close>

record Exif =
  ISOSpeedRatings :: "int list"
  Make :: string
  Model :: string
  ExposureTime :: "string list"
  FocalLength :: "string list"
  FNumber :: "string list"
  ImageWidth :: "int list"
  ImageLength :: "int list"
  LensModel :: string

text \<open>The value of \<open>&Exif{}\<close>: what \<open>exifData\<close> holds when decoding fails.\<close>

definition zero_Exif :: Exif where
  "zero_Exif =
     \<lparr>ISOSpeedRatings = [], Make = [], Model = [], ExposureTime = [], FocalLength = [],
      FNumber = [], ImageWidth = [], ImageLength = [], LensModel = []\<rparr>"

text \<open>
  What the function needs from outside: whether the file opens and closes, the
  metadata decoded from it (\<open>None\<close> when \<open>exif.Decode\<close> or the conversion fails), and
  \<open>exifDivision\<close>, a function of this repository that is not among the sources at hand.
\<close>

record exif_env =
  os_Open :: "string \<Rightarrow> bool"
  file_Close :: "string \<Rightarrow> bool"
  exif_Decode :: "string \<Rightarrow> Exif option"
  exifDivision :: "string list \<Rightarrow> string"

text \<open>
  \<open>exifRegex\<close> is \<open>{{exif\.(iso|et|fl|w|h|wh|make|model|lens|fnum)}}\<close>.
  \<open>exif_FindAll\<close> lists its matches from left to right without overlap, each with the
  whole match and the field.
\<close>

definition exif_fields :: "string list" where
  "exif_fields =
     [''iso'', ''et'', ''fl'', ''w'', ''h'', ''wh'', ''make'', ''model'', ''lens'', ''fnum'']"

definition exif_match_at :: "string \<Rightarrow> string option" where
  "exif_match_at s =
     (if take 7 s = ''{{exif.''
      then find (\<lambda>f. take (length f + 2) (drop 7 s) = f @ ''}}'') exif_fields
      else None)"

fun exif_FindAll :: "nat \<Rightarrow> string \<Rightarrow> (string \<times> string) list" where
  "exif_FindAll skip [] = []"
| "exif_FindAll (Suc skip) (c # cs) = exif_FindAll skip cs"
| "exif_FindAll 0 (c # cs) =
     (case exif_match_at (c # cs) of
        Some f \<Rightarrow> (''{{exif.'' @ f @ ''}}'', f) # exif_FindAll (length f + 8) cs
      | None \<Rightarrow> exif_FindAll 0 cs)"

text \<open>
  Each match is compiled as a pattern of its own, in which only the dot is special: it
  stands for any character but a newline (characters are single bytes here).  Such a
  pattern always compiles.  \<open>wild_ReplaceAllString\<close> replaces its matches from left to
  right; the replacement is copied as it is (Go expands \<open>$\<close> in it).
\<close>

fun wild_match_at :: "string \<Rightarrow> string \<Rightarrow> bool" where
  "wild_match_at [] s = True"
| "wild_match_at (p # ps) [] = False"
| "wild_match_at (p # ps) (c # cs) =
     ((if p = CHR ''.'' then c \<noteq> CHR 0x0A else p = c) \<and> wild_match_at ps cs)"

fun wild_replace :: "string \<Rightarrow> nat \<Rightarrow> string \<Rightarrow> string \<Rightarrow> string" where
  "wild_replace pat skip [] r = []"
| "wild_replace pat (Suc skip) (c # cs) r = wild_replace pat skip cs r"
| "wild_replace pat 0 (c # cs) r =
     (if wild_match_at pat (c # cs) then r @ wild_replace pat (length pat - 1) cs r
      else c # wild_replace pat 0 cs r)"

definition wild_ReplaceAllString :: "string \<Rightarrow> string \<Rightarrow> string \<Rightarrow> string" where
  "wild_ReplaceAllString pat str r = wild_replace pat 0 str r"

definition slash_to_underscore :: "string \<Rightarrow> string" where
  "slash_to_underscore = map (\<lambda>c. if c = CHR ''/'' then CHR ''_'' else c)"

text \<open>The text that the \<open>switch\<close> puts in place of the variable of a field.\<close>

definition exif_text :: "exif_env \<Rightarrow> Exif \<Rightarrow> string \<Rightarrow> string" where
  "exif_text env exifData field =
     (if field = ''model'' then slash_to_underscore (Model exifData)
      else if field = ''lens'' then slash_to_underscore (LensModel exifData)
      else if field = ''make'' then Make exifData
      else if field = ''iso'' then
        ''ISO'' @ (if length (ISOSpeedRatings exifData) > 0
                   then Itoa (hd (ISOSpeedRatings exifData)) else [])
      else if field = ''et'' then
        (if length (ExposureTime exifData) > 0
         then slash_to_underscore (hd (ExposureTime exifData)) else []) @ ''s''
      else if field = ''fnum'' then ''f'' @ exifDivision env (FNumber exifData)
      else if field = ''fl'' then exifDivision env (FocalLength exifData) @ ''mm''
      else if field = ''wh'' then
        (if length (ImageLength exifData) > 0 \<and> length (ImageWidth exifData) > 0
         then Itoa (hd (ImageWidth exifData)) @ ''x'' @ Itoa (hd (ImageLength exifData))
         else [])
      else if field = ''h'' then
        (if length (ImageLength exifData) > 0 then Itoa (hd (ImageLength exifData)) else [])
      else
        (if length (ImageWidth exifData) > 0 then Itoa (hd (ImageWidth exifData)) else []))"

text \<open>
  The result is the pair of Go's two results.  A failing \<open>Close\<close> in the deferred
  function replaces the error after the text has been returned.
\<close>

definition replaceExifVariables :: "exif_env \<Rightarrow> string \<Rightarrow> string \<Rightarrow> string \<times> error option" where
  "replaceExifVariables env file input =
     (if \<not> os_Open env file then ([], Some OpenError)
      else
        let exifData = (case exif_Decode env file of None \<Rightarrow> zero_Exif | Some x \<Rightarrow> x);
            out = foldl (\<lambda>inp submatch.
                     wild_ReplaceAllString (fst submatch) inp
                       (exif_text env exifData (snd submatch)))
                   input (exif_FindAll 0 input)
        in (out, if file_Close env file then None else Some CloseError))"

section \<open>A small file system for concrete runs\<close>

text \<open>
  Modelled from the spec: \<open>filenameWithoutExtension\<close> is not among the sources.  The
  spec has it as the file name without its extension.
\<close>

definition filenameWithoutExtension :: "string \<Rightarrow> string" where
  "filenameWithoutExtension name = take (length name - length (Ext name)) name"

text \<open>
  The state is the list of the paths that exist (files and directories alike, cleaned,
  relative to the working directory) and the log files written.  A path exists for
  \<open>Stat\<close> when it is in the list.  \<open>Rename\<close> needs its source to exist, replaces an
  existing target and takes along what lies below a renamed directory (\<open>below d p\<close>:
  the path \<open>p\<close> starts with \<open>d\<close> and a separator); renaming a path to itself changes
  nothing.  \<open>MkdirAll\<close> adds the directory and those above it.  Whether the directory
  of a target exists is not looked at.
\<close>

record simple_fs =
  entries :: "string list"
  logs :: "(string \<times> Change list) list"

definition simple_Stat :: "simple_fs \<Rightarrow> string \<Rightarrow> stat_error" where
  "simple_Stat fs p = (if p \<in> set (entries fs) then NoError else NotExist)"

definition below :: "string \<Rightarrow> string \<Rightarrow> bool" where
  "below d p = (take (length d + 1) p = d @ ''/'')"

definition relocate :: "string \<Rightarrow> string \<Rightarrow> string \<Rightarrow> string" where
  "relocate s t p =
     (if p = s then t
      else if below s p then t @ drop (length s) p
      else p)"

definition simple_Rename :: "simple_fs \<Rightarrow> string \<Rightarrow> string \<Rightarrow> simple_fs option" where
  "simple_Rename fs s t =
     (if s \<notin> set (entries fs) then None
      else if s = t then Some fs
      else Some (fs\<lparr>entries := map (relocate s t) (filter (\<lambda>p. p \<noteq> t) (entries fs))\<rparr>))"

definition simple_MkdirAll :: "simple_fs \<Rightarrow> string \<Rightarrow> bool \<times> simple_fs" where
  "simple_MkdirAll fs d =
     (let cs = splitSlash (Clean d);
          dirs = map (\<lambda>k. joinSlash (take k cs)) [1..<length cs + 1]
      in (True,
          fs\<lparr>entries := entries fs @
                filter (\<lambda>p. p \<noteq> [] \<and> p \<noteq> ''.'' \<and> p \<notin> set (entries fs)) dirs\<rparr>))"

text \<open>
  Modelled from the spec: \<open>getNewPath\<close> is not among the sources.  The spec has it
  append an incrementing numeric suffix before the extension until no collision
  remains, where a collision is with the file system or with a key of \<open>m\<close>.  Of the
  first \<open>n + 1\<close> numbers one is free when \<open>n\<close> paths are taken, so the search is bounded.
\<close>

definition numbered_name :: "string \<Rightarrow> nat \<Rightarrow> string" where
  "numbered_name tgt n = filenameWithoutExtension (Base tgt) @ digits10 n @ Ext tgt"

definition simple_getNewPath ::
  "simple_fs \<Rightarrow> string \<Rightarrow> string \<Rightarrow> groups option \<Rightarrow> string" where
  "simple_getNewPath fs tgt baseDir m =
     (let keys = (case m of None \<Rightarrow> [] | Some g \<Rightarrow> map fst g);
          taken = (\<lambda>name. Join [baseDir, name] \<in> set (entries fs) \<union> set keys);
          bound = length (entries fs) + length keys + 1
      in case find (\<lambda>name. \<not> taken name) (map (numbered_name tgt) [1..<bound + 1]) of
           Some name \<Rightarrow> name
         | None \<Rightarrow> numbered_name tgt (bound + 1))"

definition simple_sys :: "simple_fs sys" where
  "simple_sys =
     \<lparr>os_Stat = simple_Stat,
      os_MkdirAll = simple_MkdirAll,
      os_Rename = simple_Rename,
      getNewPath = simple_getNewPath,
      range_order = (\<lambda>ks. ks),
      writeLog = (\<lambda>fs p ms. (True, fs\<lparr>logs := (p, ms) # logs fs\<rparr>)),
      readLog = (\<lambda>fs p. map_of (logs fs) p)\<rparr>"

section \<open>Inputs for concrete runs\<close>

text \<open>A directory \<open>d\<close> with the two files \<open>a\<close> and \<open>b\<close>.\<close>

definition fs_d :: simple_fs where
  "fs_d = \<lparr>entries = [''d'', ''d/a'', ''d/b''], logs = []\<rparr>"

text \<open>\<open>a\<close> is to become \<open>b\<close>, and \<open>b\<close> is to become \<open>c\<close>.\<close>

definition batch_chain :: "Change list" where
  "batch_chain =
     [\<lparr>BaseDir = ''d'', Source = ''a'', Target = ''b'', IsDir = False\<rparr>,
      \<lparr>BaseDir = ''d'', Source = ''b'', Target = ''c'', IsDir = False\<rparr>]"

text \<open>The name of \<open>a\<close> has come out empty, and \<open>b\<close> is to become \<open>a\<close>.\<close>

definition batch_empty :: "Change list" where
  "batch_empty =
     [\<lparr>BaseDir = ''d'', Source = ''a'', Target = ''.'', IsDir = False\<rparr>,
      \<lparr>BaseDir = ''d'', Source = ''b'', Target = ''a'', IsDir = False\<rparr>]"

text \<open>A system in which \<open>Stat\<close> of \<open>d/locked\<close> fails with a permission error.\<close>

definition locked_sys :: "simple_fs sys" where
  "locked_sys =
     simple_sys\<lparr>os_Stat := (\<lambda>fs p. if p = ''d/locked'' then OtherError else simple_Stat fs p)\<rparr>"

definition batch_locked :: "Change list" where
  "batch_locked = [\<lparr>BaseDir = ''d'', Source = ''a'', Target = ''locked'', IsDir = False\<rparr>]"

text \<open>An operation on the batch \<open>batch_chain\<close>, with the two flags to choose.\<close>

definition op_chain :: "bool \<Rightarrow> bool \<Rightarrow> Operation" where
  "op_chain ex fx =
     \<lparr>matches = batch_chain, conflicts = Map.empty, startNumber = 1, exec = ex,
      fixConflicts = fx, includeDir = False, ignoreExt = False, undoFile = [],
      outputFile = []\<rparr>"

text \<open>
  Two pictures to be numbered from 7: the text before numbering is \<open>img_%03d\<close> for
  each, and the extension is put back afterwards.
\<close>

definition op_numbered :: Operation where
  "op_numbered =
     \<lparr>matches =
        [\<lparr>BaseDir = ''d'', Source = ''x.jpg'', Target = [], IsDir = False\<rparr>,
         \<lparr>BaseDir = ''d'', Source = ''y.jpg'', Target = [], IsDir = False\<rparr>],
      conflicts = Map.empty, startNumber = 7, exec = False, fixConflicts = False,
      includeDir = False, ignoreExt = True, undoFile = [], outputFile = []\<rparr>"

definition expand_img :: "Change \<Rightarrow> string option" where
  "expand_img v = Some ''img_%03d''"

text \<open>The same pictures with two counter tokens in the text before numbering.\<close>

definition expand_mixed :: "Change \<Rightarrow> string option" where
  "expand_mixed v = Some ''%d-%03d''"

text \<open>A file in the directory \<open>a\<close> followed by a directory in the directory \<open>z\<close>.\<close>

definition batch_file_dir :: "Change list" where
  "batch_file_dir =
     [\<lparr>BaseDir = ''a'', Source = ''x'', Target = [], IsDir = False\<rparr>,
      \<lparr>BaseDir = ''z'', Source = ''y'', Target = [], IsDir = True\<rparr>]"

text \<open>The directory \<open>/a\<close>, the directory \<open>/a/b\<close> and a file in \<open>/a/b\<close>.\<close>

definition dir_a :: Change where
  "dir_a = \<lparr>BaseDir = ''/'', Source = ''a'', Target = [], IsDir = True\<rparr>"

definition dir_b :: Change where
  "dir_b = \<lparr>BaseDir = ''/a'', Source = ''b'', Target = [], IsDir = True\<rparr>"

definition file_f :: Change where
  "file_f = \<lparr>BaseDir = ''/a/b'', Source = ''f'', Target = [], IsDir = False\<rparr>"

text \<open>Three files of one directory.\<close>

definition batch_files :: "Change list" where
  "batch_files =
     [\<lparr>BaseDir = ''a'', Source = ''x'', Target = [], IsDir = False\<rparr>,
      \<lparr>BaseDir = ''a'', Source = ''y'', Target = [], IsDir = False\<rparr>,
      \<lparr>BaseDir = ''a'', Source = ''z'', Target = [], IsDir = False\<rparr>]"

text \<open>
  A string is a counter token when \<open>indexRegex\<close> matches all of it, and free of tokens
  when \<open>indexRegex\<close> matches nowhere in it.
\<close>

definition is_token :: "string \<Rightarrow> bool" where
  "is_token t = (index_match_at t = Some (length t))"

definition token_free :: "string \<Rightarrow> bool" where
  "token_free s = (index_Find s = None)"

text \<open>
  The spec's "zero-padded to width \<open>w\<close>": the decimal digits of the number, with zeros
  in front of them (after the sign of a negative number) up to the width.
\<close>

definition zero_padded :: "nat \<Rightarrow> int \<Rightarrow> string" where
  "zero_padded w v =
     (if v < 0
      then CHR ''-'' # replicate (w - 1 - length (digits10 (nat (- v)))) CHR ''0'' @
             digits10 (nat (- v))
      else replicate (w - length (digits10 (nat v))) CHR ''0'' @ digits10 (nat v))"

text \<open>The full paths of a change, as \<open>DetectConflicts\<close> and \<open>Apply\<close> compute them.\<close>

definition full_source :: "Change \<Rightarrow> string" where
  "full_source ch = Join [BaseDir ch, Source ch]"

definition full_target :: "Change \<Rightarrow> string" where
  "full_target ch = Join [BaseDir ch, Target ch]"

text \<open>
  A plain batch on a state of the small file system: no name is \<open>.\<close> or has a
  separator, the full sources are distinct and exist, the full targets are distinct
  and do not exist, and no path of the state or of the batch lies below a full source
  or a full target (every renamed entry is a file or an empty directory, and nothing
  is moved into a renamed directory).
\<close>

definition plain_batch :: "simple_fs \<Rightarrow> Change list \<Rightarrow> bool" where
  "plain_batch fs ms =
     ((\<forall>ch \<in> set ms. Target ch \<noteq> ''.'' \<and> Source ch \<noteq> ''.'' \<and>
         CHR ''/'' \<notin> set (Target ch) \<and> CHR ''/'' \<notin> set (Source ch)) \<and>
      distinct (map full_source ms) \<and> distinct (map full_target ms) \<and>
      set (map full_source ms) \<subseteq> set (entries fs) \<and>
      set (map full_target ms) \<inter> set (entries fs) = {} \<and>
      (\<forall>ch \<in> set ms.
         \<forall>p \<in> set (entries fs) \<union> set (map full_source ms) \<union> set (map full_target ms).
           \<not> below (full_source ch) p \<and> \<not> below (full_target ch) p))"

text \<open>
  A run in execute mode with auto-fix and a log, on the batch in which the name of \<open>a\<close>
  has come out empty and \<open>b\<close> is to become \<open>c\<close>; and the undo of a log.
\<close>

definition op_forward :: Operation where
  "op_forward =
     \<lparr>matches =
        [\<lparr>BaseDir = ''d'', Source = ''a'', Target = ''.'', IsDir = False\<rparr>,
         \<lparr>BaseDir = ''d'', Source = ''b'', Target = ''c'', IsDir = False\<rparr>],
      conflicts = Map.empty, startNumber = 1, exec = True, fixConflicts = True,
      includeDir = False, ignoreExt = False, undoFile = [], outputFile = ''log''\<rparr>"

definition op_undo :: "bool \<Rightarrow> Operation" where
  "op_undo fx =
     \<lparr>matches = [], conflicts = Map.empty, startNumber = 1, exec = True, fixConflicts = fx,
      includeDir = False, ignoreExt = False, undoFile = ''log'', outputFile = []\<rparr>"

text \<open>
  A directory \<open>a\<close> with a file \<open>f\<close>, and a run in execute mode with a log that renames
  the file to \<open>g\<close> and then the directory to \<open>a2\<close>.
\<close>

definition fs_nested :: simple_fs where
  "fs_nested = \<lparr>entries = [''a'', ''a/f''], logs = []\<rparr>"

definition op_nested :: Operation where
  "op_nested =
     \<lparr>matches =
        [\<lparr>BaseDir = ''a'', Source = ''f'', Target = ''g'', IsDir = False\<rparr>,
         \<lparr>BaseDir = ''.'', Source = ''a'', Target = ''a2'', IsDir = True\<rparr>],
      conflicts = Map.empty, startNumber = 1, exec = True, fixConflicts = False,
      includeDir = True, ignoreExt = False, undoFile = [], outputFile = ''log''\<rparr>"

text \<open>A run in execute mode with a log, on a plain batch: \<open>a\<close> to \<open>x\<close> and \<open>b\<close> to \<open>y\<close>.\<close>

definition op_plain :: Operation where
  "op_plain =
     \<lparr>matches =
        [\<lparr>BaseDir = ''d'', Source = ''a'', Target = ''x'', IsDir = False\<rparr>,
         \<lparr>BaseDir = ''d'', Source = ''b'', Target = ''y'', IsDir = False\<rparr>],
      conflicts = Map.empty, startNumber = 1, exec = True, fixConflicts = False,
      includeDir = False, ignoreExt = False, undoFile = [], outputFile = ''log''\<rparr>"

text \<open>The indices that occur in the groups of \<open>m\<close>.\<close>

definition group_indices :: "groups \<Rightarrow> nat set" where
  "group_indices m = (\<Union>kv \<in> set m. snd ` set (snd kv))"

section \<open>Conflict detection: what the first loop reports\<close>

lemma conflicts_at_append:
  "conflicts_at (conflicts_append cf k c) k' =
     (if k' = k then conflicts_at cf k @ [c] else conflicts_at cf k')"
  by (simp add: conflicts_at_def conflicts_append_def)

lemma zip_upt_Cons:
  "zip [n..<n + length (x # xs)] (x # xs) = (n, x) # zip [Suc n..<Suc n + length xs] xs"
  by (subst upt_rec) simp

lemma check_match_fileExists:
  "conflicts_at (d_conflicts (check_match sy fs fx st (i, ch))) fileExists =
     conflicts_at (d_conflicts st) fileExists @
       (if Target ch \<noteq> ''.'' \<and> os_Stat sy fs (Join [BaseDir ch, Target ch]) \<noteq> NotExist
        then [\<lparr>source = [Join [BaseDir ch, Source ch]], target = Join [BaseDir ch, Target ch]\<rparr>]
        else [])"
  by (simp add: check_match_def Let_def conflicts_at_append)

lemma first_loop_fileExists:
  "conflicts_at (d_conflicts (foldl (check_match sy fs fx) st (zip [n..<n + length xs] xs))) fileExists =
     conflicts_at (d_conflicts st) fileExists @
       map (\<lambda>ch. \<lparr>source = [Join [BaseDir ch, Source ch]], target = Join [BaseDir ch, Target ch]\<rparr>)
         (filter (\<lambda>ch. Target ch \<noteq> ''.'' \<and> os_Stat sy fs (Join [BaseDir ch, Target ch]) \<noteq> NotExist) xs)"
proof (induction xs arbitrary: st n)
  case Nil
  then show ?case by simp
next
  case (Cons x xs)
  show ?case
    unfolding zip_upt_Cons foldl_Cons Cons.IH check_match_fileExists by simp
qed

lemma fix_item_conflicts: "d_conflicts (fix_item sy fs k st item) = d_conflicts st"
  by (simp add: fix_item_def Let_def)

lemma fix_items_conflicts: "d_conflicts (foldl (fix_item sy fs k) st items) = d_conflicts st"
  by (induction items arbitrary: st) (simp_all add: fix_item_conflicts)

lemma report_duplicate_other:
  "k' \<noteq> overwritingNewPath \<Longrightarrow>
   conflicts_at (d_conflicts (report_duplicate sy fs fx st k)) k' = conflicts_at (d_conflicts st) k'"
  by (simp add: report_duplicate_def Let_def fix_items_conflicts conflicts_at_append)

lemma second_loop_other:
  "k' \<noteq> overwritingNewPath \<Longrightarrow>
   conflicts_at (d_conflicts (foldl (report_duplicate sy fs fx) st ks)) k' = conflicts_at (d_conflicts st) k'"
  by (induction ks arbitrary: st) (simp_all add: report_duplicate_other)

lemma detect_fileExists_list:
  "conflicts_at (snd (DetectConflicts sy fs fx ms)) fileExists =
     map (\<lambda>ch. \<lparr>source = [Join [BaseDir ch, Source ch]], target = Join [BaseDir ch, Target ch]\<rparr>)
       (filter (\<lambda>ch. Target ch \<noteq> ''.'' \<and> os_Stat sy fs (Join [BaseDir ch, Target ch]) \<noteq> NotExist) ms)"
proof -
  have "conflicts_at (snd (DetectConflicts sy fs fx ms)) fileExists =
        conflicts_at (d_conflicts (detect_first sy fs fx ms)) fileExists"
    by (simp add: DetectConflicts_def Let_def second_loop_other)
  also have "\<dots> = conflicts_at Map.empty fileExists @
       map (\<lambda>ch. \<lparr>source = [Join [BaseDir ch, Source ch]], target = Join [BaseDir ch, Target ch]\<rparr>)
         (filter (\<lambda>ch. Target ch \<noteq> ''.'' \<and> os_Stat sy fs (Join [BaseDir ch, Target ch]) \<noteq> NotExist) ms)"
    unfolding detect_first_def
    using first_loop_fileExists [of sy fs fx _ 0 ms] by simp
  finally show ?thesis by (simp add: conflicts_at_def)
qed

lemma check_match_emptyFilename:
  "conflicts_at (d_conflicts (check_match sy fs fx st (i, ch))) emptyFilename =
     conflicts_at (d_conflicts st) emptyFilename @
       (if Target ch = ''.''
        then [\<lparr>source = [Join [BaseDir ch, Source ch]], target = Join [BaseDir ch, Target ch]\<rparr>]
        else [])"
  by (simp add: check_match_def Let_def conflicts_at_append)

lemma first_loop_emptyFilename:
  "conflicts_at (d_conflicts (foldl (check_match sy fs fx) st (zip [n..<n + length xs] xs))) emptyFilename =
     conflicts_at (d_conflicts st) emptyFilename @
       map (\<lambda>ch. \<lparr>source = [Join [BaseDir ch, Source ch]], target = Join [BaseDir ch, Target ch]\<rparr>)
         (filter (\<lambda>ch. Target ch = ''.'') xs)"
proof (induction xs arbitrary: st n)
  case Nil
  then show ?case by simp
next
  case (Cons x xs)
  show ?case
    unfolding zip_upt_Cons foldl_Cons Cons.IH check_match_emptyFilename by simp
qed

lemma detect_emptyFilename_list:
  "conflicts_at (snd (DetectConflicts sy fs fx ms)) emptyFilename =
     map (\<lambda>ch. \<lparr>source = [Join [BaseDir ch, Source ch]], target = Join [BaseDir ch, Target ch]\<rparr>)
       (filter (\<lambda>ch. Target ch = ''.'') ms)"
proof -
  have "conflicts_at (snd (DetectConflicts sy fs fx ms)) emptyFilename =
        conflicts_at (d_conflicts (detect_first sy fs fx ms)) emptyFilename"
    by (simp add: DetectConflicts_def Let_def second_loop_other)
  also have "\<dots> = conflicts_at Map.empty emptyFilename @
       map (\<lambda>ch. \<lparr>source = [Join [BaseDir ch, Source ch]], target = Join [BaseDir ch, Target ch]\<rparr>)
         (filter (\<lambda>ch. Target ch = ''.'') ms)"
    unfolding detect_first_def
    using first_loop_emptyFilename [of sy fs fx _ 0 ms] by simp
  finally show ?thesis by (simp add: conflicts_at_def)
qed

text \<open>
  C1, as the code has it.  \<open>DetectConflicts\<close> reports an existing-path conflict for a
  change exactly when the target of the change is not \<open>.\<close> and \<open>Stat\<close> of its full target
  path returns anything but a does-not-exist error; the conflicts come in the order of
  the matches.  Whether the path is the source of another change of the batch plays no
  part.
\<close>

theorem DetectConflicts_fileExists:
  "conflicts_at (snd (DetectConflicts sy fs fx ms)) fileExists =
     map (\<lambda>ch. \<lparr>source = [Join [BaseDir ch, Source ch]], target = Join [BaseDir ch, Target ch]\<rparr>)
       (filter (\<lambda>ch. Target ch \<noteq> ''.'' \<and> os_Stat sy fs (Join [BaseDir ch, Target ch]) \<noteq> NotExist) ms)"
  by (rule detect_fileExists_list)

text \<open>
  C1 as stated fails: in the batch \<open>a \<rightarrow> b\<close>, \<open>b \<rightarrow> c\<close> the target \<open>d/b\<close> of the first
  change is the source of the second, and it is reported as an existing path.
\<close>

theorem TargetExists_batch_source_counterexample:
  "Join [BaseDir (batch_chain ! 1), Source (batch_chain ! 1)] = ''d/b'' \<and>
   conflicts_at (snd (DetectConflicts simple_sys fs_d False batch_chain)) fileExists =
     [\<lparr>source = [''d/a''], target = ''d/b''\<rparr>]"
  by code_simp

text \<open>
  C9.  For a change whose target is not \<open>.\<close>, the existing-path conflict is reported when
  \<open>Stat\<close> of the full target path succeeds and also when it fails with an error other
  than does-not-exist; it is not reported when \<open>Stat\<close> fails with does-not-exist.
\<close>

theorem DetectConflicts_stat_error:
  assumes "ch \<in> set ms" and "Target ch \<noteq> ''.''"
  shows "(os_Stat sy fs (Join [BaseDir ch, Target ch]) = NoError \<longrightarrow>
            \<lparr>source = [Join [BaseDir ch, Source ch]], target = Join [BaseDir ch, Target ch]\<rparr>
              \<in> set (conflicts_at (snd (DetectConflicts sy fs fx ms)) fileExists))
       \<and> (os_Stat sy fs (Join [BaseDir ch, Target ch]) = OtherError \<longrightarrow>
            \<lparr>source = [Join [BaseDir ch, Source ch]], target = Join [BaseDir ch, Target ch]\<rparr>
              \<in> set (conflicts_at (snd (DetectConflicts sy fs fx ms)) fileExists))
       \<and> (os_Stat sy fs (Join [BaseDir ch, Target ch]) = NotExist \<longrightarrow>
            \<lparr>source = [Join [BaseDir ch, Source ch]], target = Join [BaseDir ch, Target ch]\<rparr>
              \<notin> set (conflicts_at (snd (DetectConflicts sy fs fx ms)) fileExists))"
  using assms unfolding detect_fileExists_list by auto

theorem DetectConflicts_stat_error_witness:
  "batch_locked ! 0 \<in> set batch_locked \<and> Target (batch_locked ! 0) \<noteq> ''.'' \<and>
   os_Stat locked_sys fs_d ''d/locked'' = OtherError \<and>
   \<lparr>source = [''d/a''], target = ''d/locked''\<rparr>
     \<in> set (conflicts_at (snd (DetectConflicts locked_sys fs_d False batch_locked)) fileExists)"
proof -
  have m: "batch_locked ! 0 \<in> set batch_locked" by (simp add: batch_locked_def)
  have t: "Target (batch_locked ! 0) \<noteq> ''.''" by (simp add: batch_locked_def)
  have s: "Join [BaseDir (batch_locked ! 0), Source (batch_locked ! 0)] = ''d/a''" by code_simp
  have j: "Join [BaseDir (batch_locked ! 0), Target (batch_locked ! 0)] = ''d/locked''" by code_simp
  have e: "os_Stat locked_sys fs_d ''d/locked'' = OtherError"
    by (simp add: locked_sys_def)
  show ?thesis
    using DetectConflicts_stat_error [OF m t, of locked_sys fs_d False] m t e
    unfolding s j by simp
qed

section \<open>Conflict detection: the grouping of targets\<close>

lemma group_indices_simps:
  "group_indices [] = {}"
  "group_indices ((k, v) # m) = snd ` set v \<union> group_indices m"
  by (simp_all add: group_indices_def)

lemma group_indices_append:
  "group_indices (groups_append m k (s, i)) = insert i (group_indices m)"
proof (induction m)
  case Nil
  then show ?case by (simp add: group_indices_simps)
next
  case (Cons kv m)
  obtain k' v where kv: "kv = (k', v)" by (cases kv)
  show ?case
    unfolding kv using Cons.IH by (simp add: group_indices_simps)
qed

lemma group_indices_at: "snd ` set (groups_at m k) \<subseteq> group_indices m"
proof (cases "map_of m k")
  case None
  then show ?thesis by (simp add: groups_at_def)
next
  case (Some v)
  then have "(k, v) \<in> set m" by (rule map_of_SomeD)
  then show ?thesis using Some by (force simp: groups_at_def group_indices_def)
qed

lemma check_match_indices:
  "group_indices (d_m (check_match sy fs fx st (i, ch))) =
     (if Target ch = ''.'' then group_indices (d_m st) else insert i (group_indices (d_m st)))"
  by (simp add: check_match_def Let_def group_indices_append)

lemma first_loop_indices:
  "group_indices (d_m (foldl (check_match sy fs fx) st (zip [n..<n + length xs] xs))) =
     group_indices (d_m st) \<union> {i. n \<le> i \<and> i < n + length xs \<and> Target (xs ! (i - n)) \<noteq> ''.''}"
proof (induction xs arbitrary: st n)
  case Nil
  then show ?case by auto
next
  case (Cons x xs)
  have "{i. n \<le> i \<and> i < n + length (x # xs) \<and> Target ((x # xs) ! (i - n)) \<noteq> ''.''} =
        (if Target x = ''.'' then {} else {n}) \<union>
        {i. Suc n \<le> i \<and> i < Suc n + length xs \<and> Target (xs ! (i - Suc n)) \<noteq> ''.''}"
    by (auto simp: nth_Cons' Suc_diff_Suc split: if_splits) 
  then show ?case
    unfolding zip_upt_Cons foldl_Cons Cons.IH check_match_indices by auto
qed

lemma detect_first_indices:
  "group_indices (d_m (detect_first sy fs fx ms)) = {i. i < length ms \<and> Target (ms ! i) \<noteq> ''.''}"
  unfolding detect_first_def using first_loop_indices [of sy fs fx _ 0 ms]
  by (simp add: group_indices_def)

subsection \<open>The matches after the first loop\<close>

lemma check_match_length:
  "length (d_matches (check_match sy fs fx st ich)) = length (d_matches st)"
  by (simp add: check_match_def Let_def)

lemma check_match_other:
  "j \<noteq> i \<Longrightarrow> d_matches (check_match sy fs fx st (j, ch)) ! i = d_matches st ! i"
  by (simp add: check_match_def Let_def)

lemma first_loop_length:
  "length (d_matches (foldl (check_match sy fs fx) st ps)) = length (d_matches st)"
  by (induction ps arbitrary: st) (simp_all add: check_match_length)

lemma first_loop_other:
  "i \<notin> fst ` set ps \<Longrightarrow> d_matches (foldl (check_match sy fs fx) st ps) ! i = d_matches st ! i"
  by (induction ps arbitrary: st) (auto simp: check_match_other)

lemma check_match_revert:
  "Target ch = ''.'' \<Longrightarrow> i < length (d_matches st) \<Longrightarrow>
   Target (d_matches (check_match sy fs True st (i, ch)) ! i) = Source ch"
  by (simp add: check_match_def Let_def)

lemma first_loop_revert:
  "n \<le> i \<Longrightarrow> i < n + length xs \<Longrightarrow> n + length xs \<le> length (d_matches st) \<Longrightarrow>
   Target (xs ! (i - n)) = ''.'' \<Longrightarrow>
   Target (d_matches (foldl (check_match sy fs True) st (zip [n..<n + length xs] xs)) ! i) =
     Source (xs ! (i - n))"
proof (induction xs arbitrary: st n)
  case Nil
  then show ?case by simp
next
  case (Cons x xs)
  show ?case
  proof (cases "i = n")
    case True
    have "i \<notin> fst ` set (zip [Suc n..<Suc n + length xs] xs)"
      using True by (auto dest: set_zip_leftD)
    then show ?thesis
      unfolding zip_upt_Cons foldl_Cons
      using Cons.prems True by (simp add: first_loop_other check_match_revert)
  next
    case False
    then have a: "Suc n \<le> i" and b: "i < Suc n + length xs"
      and d: "Target (xs ! (i - Suc n)) = ''.''"
      using Cons.prems by (auto simp: nth_Cons' Suc_diff_Suc split: if_splits)
    have c: "Suc n + length xs \<le> length (d_matches (check_match sy fs True st (n, x)))"
      using Cons.prems by (simp add: check_match_length)
    have "Target (d_matches (foldl (check_match sy fs True) (check_match sy fs True st (n, x))
          (zip [Suc n..<Suc n + length xs] xs)) ! i) = Source (xs ! (i - Suc n))"
      by (rule Cons.IH [OF a b c d])
    then show ?thesis
      unfolding zip_upt_Cons foldl_Cons using False a
      by (simp add: nth_Cons' Suc_diff_Suc)
  qed
qed

subsection \<open>The second loop\<close>

lemma fix_item_indices: "group_indices (d_m (fix_item sy fs k st item)) = group_indices (d_m st)"
  by (simp add: fix_item_def Let_def group_indices_def)

lemma fix_item_other:
  "i \<noteq> snd item \<Longrightarrow> d_matches (fix_item sy fs k st item) ! i = d_matches st ! i"
  by (simp add: fix_item_def Let_def)

lemma fix_items_keep:
  "i \<notin> snd ` set items \<Longrightarrow>
   d_matches (foldl (fix_item sy fs k) st items) ! i = d_matches st ! i \<and>
   group_indices (d_m (foldl (fix_item sy fs k) st items)) = group_indices (d_m st)"
  by (induction items arbitrary: st) (auto simp: fix_item_other fix_item_indices)

lemma fix_items_indices:
  "group_indices (d_m (foldl (fix_item sy fs k) st items)) = group_indices (d_m st)"
  by (induction items arbitrary: st) (auto simp: fix_item_indices)

lemma report_duplicate_keep:
  assumes "i \<notin> group_indices (d_m st)"
  shows "d_matches (report_duplicate sy fs fx st k) ! i = d_matches st ! i \<and>
         group_indices (d_m (report_duplicate sy fs fx st k)) = group_indices (d_m st)"
proof -
  have "i \<notin> snd ` set (groups_at (d_m st) k)"
    using assms group_indices_at by blast
  then have "i \<notin> snd ` set (tl (groups_at (d_m st) k))"
    by (cases "groups_at (d_m st) k") auto
  then show ?thesis
    by (simp add: report_duplicate_def Let_def fix_items_keep fix_items_indices)
qed

lemma second_loop_keep:
  "i \<notin> group_indices (d_m st) \<Longrightarrow>
   d_matches (foldl (report_duplicate sy fs fx) st ks) ! i = d_matches st ! i"
  by (induction ks arbitrary: st) (simp_all add: report_duplicate_keep)

text \<open>
  C7, as the code has it.  With auto-fix on, a change whose target is \<open>.\<close> is reported
  as an empty filename and gets its source as its target, and the round of the loop
  ends there: the change is not entered into the grouping \<open>m\<close>, so no group of
  duplicate targets ever holds it.
\<close>

theorem EmptyName_fix_skips_grouping:
  assumes "i < length ms" and "Target (ms ! i) = ''.''"
  shows "\<lparr>source = [Join [BaseDir (ms ! i), Source (ms ! i)]],
          target = Join [BaseDir (ms ! i), Target (ms ! i)]\<rparr>
           \<in> set (conflicts_at (snd (DetectConflicts sy fs True ms)) emptyFilename)
       \<and> Target (fst (DetectConflicts sy fs True ms) ! i) = Source (ms ! i)
       \<and> (\<forall>kv \<in> set (d_m (detect_first sy fs True ms)). i \<notin> snd ` set (snd kv))"
proof -
  have notin: "i \<notin> group_indices (d_m (detect_first sy fs True ms))"
    using assms by (simp add: detect_first_indices)
  have "Target (d_matches (detect_first sy fs True ms) ! i) = Source (ms ! i)"
    unfolding detect_first_def
    using first_loop_revert [of 0 i ms _ sy fs] assms by simp
  then have "Target (fst (DetectConflicts sy fs True ms) ! i) = Source (ms ! i)"
    using notin by (simp add: DetectConflicts_def Let_def second_loop_keep)
  moreover have "\<forall>kv \<in> set (d_m (detect_first sy fs True ms)). i \<notin> snd ` set (snd kv)"
    using notin by (auto simp: group_indices_def)
  moreover have "ms ! i \<in> set (filter (\<lambda>ch. Target ch = ''.'') ms)"
    using assms by simp
  then have "\<lparr>source = [Join [BaseDir (ms ! i), Source (ms ! i)]],
          target = Join [BaseDir (ms ! i), Target (ms ! i)]\<rparr>
           \<in> set (conflicts_at (snd (DetectConflicts sy fs True ms)) emptyFilename)"
    unfolding detect_emptyFilename_list set_map by (rule image_eqI [OF refl])
  ultimately show ?thesis by simp
qed

theorem EmptyName_fix_skips_grouping_witness:
  "0 < length batch_empty \<and> Target (batch_empty ! 0) = ''.'' \<and>
   conflicts_at (snd (DetectConflicts simple_sys fs_d True batch_empty)) emptyFilename =
     [\<lparr>source = [''d/a''], target = ''d''\<rparr>] \<and>
   Target (fst (DetectConflicts simple_sys fs_d True batch_empty) ! 0) = ''a'' \<and>
   d_m (detect_first simple_sys fs_d True batch_empty) = [(''d/a1'', [(''d/b'', 1)])]"
proof -
  have l: "0 < length batch_empty" by (simp add: batch_empty_def)
  have t: "Target (batch_empty ! 0) = ''.''" by (simp add: batch_empty_def)
  have s: "Source (batch_empty ! 0) = ''a''" by (simp add: batch_empty_def)
  have g: "d_m (detect_first simple_sys fs_d True batch_empty) = [(''d/a1'', [(''d/b'', 1)])]"
    by code_simp
  have c: "conflicts_at (snd (DetectConflicts simple_sys fs_d True batch_empty)) emptyFilename =
     [\<lparr>source = [''d/a''], target = ''d''\<rparr>]"
    by code_simp
  show ?thesis
    using EmptyName_fix_skips_grouping [OF l t, of simple_sys fs_d] l t g c unfolding s by simp
qed

text \<open>
  C7 as stated fails: the first change of the batch is reverted to the target \<open>a\<close>, the
  second change resolves to the same full path \<open>d/a\<close>, and no duplicate-target conflict
  is reported (the second change is reported as an existing path instead).
\<close>

theorem EmptyName_fix_counterexample:
  "Target (fst (DetectConflicts simple_sys fs_d True batch_empty) ! 0) = ''a'' \<and>
   Join [BaseDir (batch_empty ! 0), ''a''] =
     Join [BaseDir (batch_empty ! 1), Target (batch_empty ! 1)] \<and>
   snd (DetectConflicts simple_sys fs_d True batch_empty) overwritingNewPath = None \<and>
   conflicts_at (snd (DetectConflicts simple_sys fs_d True batch_empty)) fileExists =
     [\<lparr>source = [''d/b''], target = ''d/a''\<rparr>]"
  by code_simp

section \<open>\<open>Apply\<close>: reporting and refusing\<close>

lemma apply_change_no_table:
  "apply_change sy ch fs tr = (e, fs1, tr1) \<Longrightarrow> ConflictsTable rows \<in> set tr1 \<Longrightarrow>
   ConflictsTable rows \<in> set tr"
  by (auto simp: apply_change_def Let_def split: if_splits option.splits)

lemma apply_changes_no_table:
  "ConflictsTable rows \<in> set (snd (snd (apply_changes sy ex ms fs tr))) \<Longrightarrow>
   ConflictsTable rows \<in> set tr"
proof (induction ms arbitrary: fs tr)
  case Nil
  then show ?case by simp
next
  case (Cons ch ms)
  show ?case
  proof (cases ex)
    case False
    then show ?thesis using Cons by simp
  next
    case True
    obtain e fs1 tr1 where r: "apply_change sy ch fs tr = (e, fs1, tr1)"
      by (cases "apply_change sy ch fs tr") auto
    show ?thesis
    proof (cases e)
      case None
      then have "ConflictsTable rows \<in> set tr1"
        using Cons.prems True r Cons.IH [of fs1 tr1] by simp
      then show ?thesis using r by (rule apply_change_no_table [rotated])
    next
      case (Some a)
      then have "ConflictsTable rows \<in> set tr1"
        using Cons.prems True r by simp
      then show ?thesis using r by (rule apply_change_no_table [rotated])
    qed
  qed
qed

text \<open>
  C3, as the code has it.  When a run of \<open>Apply\<close> on a non-empty list detects a conflict
  and auto-fix is off, it prints all detected conflicts through \<open>ReportConflicts\<close> (and
  a line on the standard error).  When auto-fix is on, \<open>ReportConflicts\<close> is not
  called: no table of conflicts is printed.
\<close>

theorem Apply_reports_only_without_fix:
  assumes "matches op \<noteq> []"
  shows "(len_conflicts (snd (DetectConflicts sy fs (fixConflicts op) (matches op))) > 0 \<and>
          \<not> fixConflicts op \<longrightarrow>
            trace (Apply sy op fs) =
              [ConflictsTable
                 (ReportConflicts (snd (DetectConflicts sy fs (fixConflicts op) (matches op)))),
               Eprintln ''Conflict detected! Please resolve before proceeding''])
       \<and> (fixConflicts op \<longrightarrow> (\<forall>rows. ConflictsTable rows \<notin> set (trace (Apply sy op fs))))"
proof -
  have nt: "ConflictsTable rows \<notin> set (snd (snd (apply_changes sy ex ms fs [])))" for ex ms rows
    using apply_changes_no_table [of rows sy ex ms fs "[]"] by auto
  have a: "len_conflicts (snd (DetectConflicts sy fs (fixConflicts op) (matches op))) > 0 \<and>
          \<not> fixConflicts op \<longrightarrow>
            trace (Apply sy op fs) =
              [ConflictsTable
                 (ReportConflicts (snd (DetectConflicts sy fs (fixConflicts op) (matches op)))),
               Eprintln ''Conflict detected! Please resolve before proceeding'']"
  proof (intro impI, elim conjE)
    assume "\<not> fixConflicts op"
      and "len_conflicts (snd (DetectConflicts sy fs (fixConflicts op) (matches op))) > 0"
    then show "trace (Apply sy op fs) =
              [ConflictsTable
                 (ReportConflicts (snd (DetectConflicts sy fs (fixConflicts op) (matches op)))),
               Eprintln ''Conflict detected! Please resolve before proceeding'']"
      using assms by (simp add: Apply_def Let_def)
  qed
  have b: "ConflictsTable rows \<notin> set (trace (Apply sy op fs))" if "fixConflicts op" for rows
  proof -
    obtain e fs1 tr where r: "apply_changes sy (exec op)
        (fst (DetectConflicts sy fs True (matches op))) fs [] = (e, fs1, tr)"
      by (cases "apply_changes sy (exec op) (fst (DetectConflicts sy fs True (matches op))) fs []") auto
    have "ConflictsTable rows \<notin> set tr"
      using nt [of rows "exec op" "fst (DetectConflicts sy fs True (matches op))"] r by simp
    then show ?thesis
      using assms that r by (cases e) (simp_all add: Apply_def Let_def)
  qed
  show ?thesis using a b by blast
qed

theorem Apply_reports_only_without_fix_witness:
  "matches (op_chain False False) \<noteq> [] \<and>
   0 < len_conflicts (snd (DetectConflicts simple_sys fs_d False batch_chain)) \<and>
   trace (Apply simple_sys (op_chain False False) fs_d) =
     [ConflictsTable [[''d/a'', ''d/b'', ''[Path already exists]'']],
      Eprintln ''Conflict detected! Please resolve before proceeding''] \<and>
   matches (op_chain True True) \<noteq> [] \<and>
   ConflictsTable [[''d/a'', ''d/b'', ''[Path already exists]'']]
     \<notin> set (trace (Apply simple_sys (op_chain True True) fs_d))"
proof -
  have m: "matches (op_chain ex fx) \<noteq> []" for ex fx
    by (simp add: op_chain_def batch_chain_def)
  have f: "fixConflicts (op_chain ex fx) = fx" "matches (op_chain ex fx) = batch_chain" for ex fx
    by (simp_all add: op_chain_def)
  have l: "0 < len_conflicts (snd (DetectConflicts simple_sys fs_d False batch_chain))"
    by code_simp
  have r: "ReportConflicts (snd (DetectConflicts simple_sys fs_d False batch_chain)) =
           [[''d/a'', ''d/b'', ''[Path already exists]'']]"
    by code_simp
  show ?thesis
    using Apply_reports_only_without_fix [OF m, of simple_sys fs_d False False]
      Apply_reports_only_without_fix [OF m, of simple_sys fs_d True True] m l
    unfolding f r by simp
qed

text \<open>
  C3 as stated fails: with auto-fix on, the run on \<open>batch_chain\<close> detects a conflict and
  prints no conflict; its whole trace is the two renames.
\<close>

theorem Apply_fix_prints_no_conflict_counterexample:
  "0 < len_conflicts (conflicts (op_after (Apply simple_sys (op_chain True True) fs_d))) \<and>
   trace (Apply simple_sys (op_chain True True) fs_d) =
     [Rename ''d/a'' ''d/b1'', Rename ''d/b'' ''d/c'']"
  by code_simp

text \<open>
  C5.  When \<open>Apply\<close> runs on a non-empty list, auto-fix is off and conflict detection
  finds a conflict, it returns an error, leaves the file system as it was, and makes no
  call of \<open>os.Rename\<close>, \<open>os.MkdirAll\<close> or \<open>os.Create\<close>.
\<close>

theorem Apply_refuses_on_conflict:
  assumes "matches op \<noteq> []" and "\<not> fixConflicts op"
    and "len_conflicts (snd (DetectConflicts sy fs (fixConflicts op) (matches op))) > 0"
  shows "err (Apply sy op fs) = Some ConflictError \<and> fs_after (Apply sy op fs) = fs \<and>
         (\<forall>s t. Rename s t \<notin> set (trace (Apply sy op fs))) \<and>
         (\<forall>d. MkdirAll d \<notin> set (trace (Apply sy op fs))) \<and>
         (\<forall>f. Create f \<notin> set (trace (Apply sy op fs)))"
  using assms by (simp add: Apply_def Let_def)


theorem Apply_refuses_on_conflict_witness:
  "matches (op_chain True False) \<noteq> [] \<and> \<not> fixConflicts (op_chain True False) \<and>
   0 < len_conflicts (snd (DetectConflicts simple_sys fs_d False batch_chain)) \<and>
   err (Apply simple_sys (op_chain True False) fs_d) = Some ConflictError \<and>
   fs_after (Apply simple_sys (op_chain True False) fs_d) = fs_d \<and>
   Rename ''d/a'' ''d/b'' \<notin> set (trace (Apply simple_sys (op_chain True False) fs_d))"
proof -
  have m: "matches (op_chain True False) \<noteq> []"
    by (simp add: op_chain_def batch_chain_def)
  have f: "\<not> fixConflicts (op_chain True False)"
    by (simp add: op_chain_def)
  have e: "fixConflicts (op_chain True False) = False" "matches (op_chain True False) = batch_chain"
    by (simp_all add: op_chain_def)
  have l: "0 < len_conflicts (snd (DetectConflicts simple_sys
             fs_d (fixConflicts (op_chain True False)) (matches (op_chain True False))))"
    unfolding e by code_simp
  show ?thesis
    using Apply_refuses_on_conflict [OF m f l] m f l unfolding e by simp
qed

section \<open>Numbering: what becomes of the counter tokens\<close>

lemma not_digit_d [simp]: "\<not> is_digit CHR ''d''" "\<not> is_digit CHR ''%''"
  by (simp_all add: is_digit_def)

lemma token_shape:
  assumes "is_token t"
  shows "\<exists>ds. t = CHR ''%'' # ds @ ''d'' \<and> (\<forall>c \<in> set ds. is_digit c)"
proof -
  obtain c r where t: "t = c # r"
    using assms by (cases t) (auto simp: is_token_def index_match_at_def)
  have c: "c = CHR ''%''"
    using assms unfolding t is_token_def index_match_at_def by (auto split: if_splits)
  obtain e es where d: "dropWhile is_digit r = e # es"
    using assms unfolding t is_token_def index_match_at_def
    by (cases "dropWhile is_digit r") (auto simp del: dropWhile_eq_Nil_conv split: if_splits)
  have e: "e = CHR ''d''" and len: "length (takeWhile is_digit r) + 2 = length t"
    using assms d unfolding t is_token_def index_match_at_def by (auto split: if_splits)
  have "length r = length (takeWhile is_digit r) + length (dropWhile is_digit r)"
    by (metis length_append takeWhile_dropWhile_id)
  then have "es = []" using len d t by simp
  then have "r = takeWhile is_digit r @ ''d''"
    using d e by (metis takeWhile_dropWhile_id)
  moreover have "\<forall>c \<in> set (takeWhile is_digit r). is_digit c"
    by (auto dest: set_takeWhileD)
  ultimately show ?thesis using t c by blast
qed

lemma match_at_token:
  assumes "is_token t"
  shows "index_match_at (t @ rest) = Some (length t)"
proof -
  obtain ds where t: "t = CHR ''%'' # ds @ ''d''" and ds: "\<forall>c \<in> set ds. is_digit c"
    using token_shape [OF assms] by blast
  have "dropWhile is_digit (ds @ CHR ''d'' # rest) = CHR ''d'' # rest"
    using ds by (simp add: dropWhile_append3)
  moreover have "takeWhile is_digit (ds @ CHR ''d'' # rest) = ds"
    using ds by (simp add: takeWhile_tail)
  ultimately show ?thesis
    unfolding t by (simp add: index_match_at_def)
qed

lemma token_starts: "is_token t \<Longrightarrow> t \<noteq> [] \<and> hd t = CHR ''%''"
  using token_shape by fastforce

lemma index_replace_skip: "index_replace (length xs) (xs @ rest) r = index_replace 0 rest r"
proof (induction xs)
  case Nil
  then show ?case by (cases rest) simp_all
next
  case (Cons x xs)
  then show ?case by simp
qed

lemma index_replace_token:
  assumes "is_token t"
  shows "index_replace 0 (t @ rest) r = r @ index_replace 0 rest r"
proof -
  obtain c cs where t: "t = c # cs"
    using token_starts [OF assms] by (cases t) auto
  have "index_match_at (c # cs @ rest) = Some (Suc (length cs))"
    using match_at_token [OF assms, of rest] t by simp
  then show ?thesis
    unfolding t by (simp add: index_replace_skip)
qed

lemma index_Find_token:
  assumes "is_token t"
  shows "index_Find (t @ rest) = Some t"
proof -
  obtain c cs where t: "t = c # cs"
    using token_starts [OF assms] by (cases t) auto
  have "index_match_at (c # cs @ rest) = Some (Suc (length cs))"
    using match_at_token [OF assms, of rest] t by simp
  then show ?thesis
    unfolding t by simp
qed

lemma dropWhile_Cons_append:
  "dropWhile P xs = e # es \<Longrightarrow> dropWhile P (xs @ ys) = e # es @ ys"
  by (induction xs) (auto split: if_splits)

lemma no_match_extends:
  assumes "index_match_at (c # cs) = None" and "rest = [] \<or> hd rest = CHR ''%''"
  shows "index_match_at (c # cs @ rest) = None"
proof (cases "c = CHR ''%''")
  case False
  then show ?thesis by (simp add: index_match_at_def)
next
  case True
  show ?thesis
  proof (cases "dropWhile is_digit cs")
    case Nil
    then have all: "\<forall>x \<in> set cs. is_digit x"
      by (metis dropWhile_eq_Nil_conv)
    have "dropWhile is_digit (cs @ rest) = rest"
    proof (cases rest)
      case Nil
      then show ?thesis using all by simp
    next
      case (Cons a as)
      then have "\<not> is_digit a" using assms(2) by auto
      then show ?thesis using all Cons by (simp add: dropWhile_append3)
    qed
    then show ?thesis
      using assms(2) True by (cases rest) (auto simp: index_match_at_def simp del: dropWhile_eq_Nil_conv)
  next
    case (Cons e es)
    then have "e \<noteq> CHR ''d''"
      using assms(1) True by (auto simp: index_match_at_def split: if_splits)
    moreover have "dropWhile is_digit (cs @ rest) = e # es @ rest"
      using Cons by (rule dropWhile_Cons_append)
    ultimately show ?thesis
      using True by (simp add: index_match_at_def)
  qed
qed

lemma token_free_prefix:
  assumes "token_free pre" and "rest = [] \<or> hd rest = CHR ''%''"
  shows "index_replace 0 (pre @ rest) r = pre @ index_replace 0 rest r \<and>
         index_Find (pre @ rest) = index_Find rest"
  using assms(1)
proof (induction pre)
  case Nil
  then show ?case by simp
next
  case (Cons c cs)
  have n: "index_match_at (c # cs) = None" and f: "token_free cs"
    using Cons.prems by (auto simp: token_free_def split: option.splits)
  have "index_match_at (c # cs @ rest) = None"
    using no_match_extends [OF n assms(2)] .
  then show ?case
    using Cons.IH [OF f] by simp
qed

lemma token_free_unchanged: "token_free s \<Longrightarrow> index_replace 0 s r = s"
  using token_free_prefix [of s "[]" r] by simp



text \<open>The digits that \<open>digits10\<close> gives are those of the number, read in base ten.\<close>

lemma digits10_value: "foldl (\<lambda>a c. 10 * a + (of_char c - 48)) 0 (digits10 n) = n"
proof (induction n rule: digits10.induct)
  case (1 n)
  show ?case
  proof (cases "n < 10")
    case True
    then show ?thesis by (subst digits10.simps) simp
  next
    case False
    then show ?thesis
      using 1 by (subst digits10.simps) simp
  qed
qed

lemma Sprintf_03d: "Sprintf ''%03d'' v = zero_padded 3 v"
proof -
  have "parsenum ''3'' 0 = Some 3" by simp
  then show ?thesis
    by (auto simp: Sprintf_def fmtInteger_def zero_padded_def Let_def abs_if)
qed

lemma token_03d: "is_token ''%03d''"
  by (simp add: is_token_def index_match_at_def is_digit_def)

lemma number_target_03d:
  assumes "token_free pre"
  shows "number_target start i (pre @ ''%03d'' @ post) =
         pre @ zero_padded 3 (sint (start + word_of_nat i)) @
           index_ReplaceAllString post (zero_padded 3 (sint (start + word_of_nat i)))"
proof -
  have st: "''%03d'' @ post = [] \<or> hd (''%03d'' @ post) = CHR ''%''" by simp
  have find: "index_Find (pre @ ''%03d'' @ post) = Some ''%03d''"
    using token_free_prefix [OF assms st] index_Find_token [OF token_03d] by simp
  have "index_replace 0 (pre @ ''%03d'' @ post) r = pre @ r @ index_replace 0 post r" for r
    using token_free_prefix [OF assms st] index_replace_token [OF token_03d, of post r] by simp
  then show ?thesis
    using find by (simp add: number_target_def index_ReplaceAllString_def Sprintf_03d)
qed

lemma replace_from_all:
  assumes "\<forall>v \<in> set vs. expand v \<noteq> None"
  shows "fst (replace_from expand op k vs) = None \<and>
         length (snd (replace_from expand op k vs)) = length vs \<and>
         (\<forall>i < length vs. snd (replace_from expand op k vs) ! i =
            (vs ! i)\<lparr>Target := Join [Dir (Source (vs ! i)),
               number_target (startNumber op) (k + i) (the (expand (vs ! i))) @
               (if ignoreExt op then Ext (Base (Source (vs ! i))) else [])]\<rparr>)"
  using assms
proof (induction vs arbitrary: k)
  case Nil
  then show ?case by simp
next
  case (Cons v vs)
  obtain s where s: "expand v = Some s" using Cons.prems by auto
  have ih: "fst (replace_from expand op (Suc k) vs) = None \<and>
         length (snd (replace_from expand op (Suc k) vs)) = length vs \<and>
         (\<forall>i < length vs. snd (replace_from expand op (Suc k) vs) ! i =
            (vs ! i)\<lparr>Target := Join [Dir (Source (vs ! i)),
               number_target (startNumber op) (Suc k + i) (the (expand (vs ! i))) @
               (if ignoreExt op then Ext (Base (Source (vs ! i))) else [])]\<rparr>)"
    using Cons.IH [of "Suc k"] Cons.prems by simp
  show ?case
  proof (intro conjI allI impI)
    show "fst (replace_from expand op k (v # vs)) = None"
      using ih s by (simp add: Let_def)
    show "length (snd (replace_from expand op k (v # vs))) = length (v # vs)"
      using ih s by (simp add: Let_def)
    fix i assume "i < length (v # vs)"
    then show "snd (replace_from expand op k (v # vs)) ! i =
            ((v # vs) ! i)\<lparr>Target := Join [Dir (Source ((v # vs) ! i)),
               number_target (startNumber op) (k + i) (the (expand ((v # vs) ! i))) @
               (if ignoreExt op then Ext (Base (Source ((v # vs) ! i))) else [])]\<rparr>"
      using ih s by (cases i) (simp_all add: Let_def)
  qed
qed

text \<open>
  C6, as the code has it.  When the expansion succeeds for every match of the batch
  and the text of match \<open>i\<close> before numbering has \<open>%03d\<close> as its first counter token,
  \<open>Replace\<close> returns no error and the target of match \<open>i\<close> has, in the place of the
  token, the number \<open>startNumber + i\<close> (added as 64-bit integers) padded with zeros to
  width 3.
\<close>

theorem Replace_numbers_batch:
  assumes "i < length (matches op)"
    and "\<forall>v \<in> set (matches op). expand v \<noteq> None"
    and "expand (matches op ! i) = Some (pre @ ''%03d'' @ post)"
    and "token_free pre"
  shows "fst (Replace expand op) = None \<and>
         Target (matches (snd (Replace expand op)) ! i) =
           Join [Dir (Source (matches op ! i)),
                 pre @ zero_padded 3 (sint (startNumber op + word_of_nat i)) @
                 index_ReplaceAllString post (zero_padded 3 (sint (startNumber op + word_of_nat i))) @
                 (if ignoreExt op then Ext (Base (Source (matches op ! i))) else [])]"
  using replace_from_all [OF assms(2), of op 0] assms(1,3) number_target_03d [OF assms(4)]
  by (simp add: Replace_def Let_def)

theorem Replace_numbers_batch_witness:
  "1 < length (matches op_numbered) \<and>
   expand_img (matches op_numbered ! 0) \<noteq> None \<and>
   expand_img (matches op_numbered ! 1) = Some (''img_'' @ ''%03d'' @ []) \<and>
   token_free ''img_'' \<and>
   fst (Replace expand_img op_numbered) = None \<and>
   Target (matches (snd (Replace expand_img op_numbered)) ! 1) = ''img_008.jpg''"
proof -
  have l: "1 < length (matches op_numbered)" by (simp add: op_numbered_def)
  have a: "\<forall>v \<in> set (matches op_numbered). expand_img v \<noteq> None"
    by (simp add: expand_img_def)
  have e: "expand_img (matches op_numbered ! 1) = Some (''img_'' @ ''%03d'' @ [])"
    by (simp add: expand_img_def)
  have f: "token_free ''img_''" by code_simp
  have v: "Join [Dir (Source (matches op_numbered ! 1)),
                 ''img_'' @ zero_padded 3 (sint (startNumber op_numbered + word_of_nat 1)) @
                 index_ReplaceAllString []
                   (zero_padded 3 (sint (startNumber op_numbered + word_of_nat 1))) @
                 (if ignoreExt op_numbered then Ext (Base (Source (matches op_numbered ! 1)))
                  else [])] = ''img_008.jpg''"
    by code_simp
  have n: "expand_img (matches op_numbered ! 0) \<noteq> None"
    by (simp add: expand_img_def)
  show ?thesis
    using Replace_numbers_batch [OF l a e f] l e f n unfolding v
    by simp
qed

text \<open>
  C6 as stated fails: the text \<open>%d-%03d\<close> contains the token \<open>%03d\<close>, but its first
  token is \<open>%d\<close>.  For the second picture, numbered 8, the token \<open>%03d\<close> is replaced
  by \<open>8\<close> and not by \<open>008\<close>.
\<close>

theorem Replace_later_token_counterexample:
  "expand_mixed (matches op_numbered ! 1) = Some ''%d-%03d'' \<and>
   fst (Replace expand_mixed op_numbered) = None \<and>
   Target (matches (snd (Replace expand_mixed op_numbered)) ! 1) = ''8-8.jpg''"
  by code_simp



section \<open>The EXIF variables of a file without metadata\<close>

text \<open>
  Whether \<open>replaceExifVariables\<close> returns an error depends on opening and closing the
  file only, not on what metadata the file has.
\<close>

lemma replaceExifVariables_error:
  "snd (replaceExifVariables env file input) =
     (if \<not> os_Open env file then Some OpenError
      else if file_Close env file then None else Some CloseError)"
  by (simp add: replaceExifVariables_def Let_def)

text \<open>The fields whose text has no constant part do come out empty.\<close>

lemma exif_absent_plain_fields:
  "exif_text env zero_Exif ''w'' = [] \<and> exif_text env zero_Exif ''h'' = [] \<and>
   exif_text env zero_Exif ''wh'' = [] \<and> exif_text env zero_Exif ''make'' = [] \<and>
   exif_text env zero_Exif ''model'' = [] \<and> exif_text env zero_Exif ''lens'' = []"
  by (simp add: exif_text_def zero_Exif_def slash_to_underscore_def)

text \<open>
  C2 at an input where the code does not do what its comment announces.  For a file
  that opens and whose metadata cannot be decoded, every field is absent.  The variables
  \<open>{{exif.iso}}\<close> and \<open>{{exif.et}}\<close> are replaced by \<open>ISO\<close> and \<open>s\<close>, not by the empty
  string; the texts for \<open>fnum\<close> and \<open>fl\<close> keep their \<open>f\<close> and \<open>mm\<close> as well.
\<close>

theorem exif_absent_field_not_empty:
  "replaceExifVariables
     \<lparr>os_Open = (\<lambda>f. True), file_Close = (\<lambda>f. True), exif_Decode = (\<lambda>f. None),
      exifDivision = dv\<rparr> file ''{{exif.iso}}_{{exif.et}}'' = (''ISO_s'', None) \<and>
   exif_text env zero_Exif ''iso'' = ''ISO'' \<and>
   exif_text env zero_Exif ''et'' = ''s'' \<and>
   exif_text env zero_Exif ''fnum'' = ''f'' @ exifDivision env [] \<and>
   exif_text env zero_Exif ''fl'' = exifDivision env [] @ ''mm''"
proof -
  have "exif_FindAll 0 ''{{exif.iso}}_{{exif.et}}'' =
          [(''{{exif.iso}}'', ''iso''), (''{{exif.et}}'', ''et'')]"
    by code_simp
  moreover have "wild_ReplaceAllString ''{{exif.iso}}'' ''{{exif.iso}}_{{exif.et}}'' ''ISO'' =
          ''ISO_{{exif.et}}''"
    by code_simp
  moreover have "wild_ReplaceAllString ''{{exif.et}}'' ''ISO_{{exif.et}}'' ''s'' = ''ISO_s''"
    by code_simp
  ultimately show ?thesis
    by (simp add: replaceExifVariables_def exif_text_def zero_Exif_def)
qed

section \<open>\<open>SortMatches\<close> on small batches\<close>

text \<open>
  The batch of the directories \<open>/a\<close> and \<open>/a/b\<close> and a file in \<open>/a/b\<close> comes out as the
  file, \<open>/a/b\<close>, \<open>/a\<close>, in whichever order it goes in (lemma
  \<open>SortMatches_nested_example\<close>).
\<close>

lemma SortMatches_nested_example:
  "map (SliceStable sortMatches_less)
     [[dir_a, dir_b, file_f], [dir_a, file_f, dir_b], [dir_b, dir_a, file_f],
      [dir_b, file_f, dir_a], [file_f, dir_a, dir_b], [file_f, dir_b, dir_a]] =
   replicate 6 [file_f, dir_b, dir_a]"
  by code_simp

text \<open>
  C4 at inputs where the code does not do what its comment announces.  A file in
  \<open>a\<close> followed by a directory in \<open>z\<close> comes out with the directory first, since the
  comparison puts a directory before any entry with a smaller base directory, file or
  not.  Three files of one directory come out in reverse order, since the comparison
  puts a file before every entry.
\<close>

theorem SortMatches_directory_before_file:
  "matches (SortMatches (op\<lparr>matches := batch_file_dir\<rparr>)) =
     [\<lparr>BaseDir = ''z'', Source = ''y'', Target = [], IsDir = True\<rparr>,
      \<lparr>BaseDir = ''a'', Source = ''x'', Target = [], IsDir = False\<rparr>] \<and>
   matches (SortMatches (op\<lparr>matches := batch_files\<rparr>)) =
     [\<lparr>BaseDir = ''a'', Source = ''z'', Target = [], IsDir = False\<rparr>,
      \<lparr>BaseDir = ''a'', Source = ''y'', Target = [], IsDir = False\<rparr>,
      \<lparr>BaseDir = ''a'', Source = ''x'', Target = [], IsDir = False\<rparr>]"
proof -
  have "SliceStable sortMatches_less batch_file_dir =
     [\<lparr>BaseDir = ''z'', Source = ''y'', Target = [], IsDir = True\<rparr>,
      \<lparr>BaseDir = ''a'', Source = ''x'', Target = [], IsDir = False\<rparr>]"
    by code_simp
  moreover have "SliceStable sortMatches_less batch_files =
     [\<lparr>BaseDir = ''a'', Source = ''z'', Target = [], IsDir = False\<rparr>,
      \<lparr>BaseDir = ''a'', Source = ''y'', Target = [], IsDir = False\<rparr>,
      \<lparr>BaseDir = ''a'', Source = ''x'', Target = [], IsDir = False\<rparr>]"
    by code_simp
  ultimately show ?thesis by (simp add: SortMatches_def)
qed

section \<open>\<open>Undo\<close> after a run\<close>

subsection \<open>A batch without conflicts\<close>

lemma groups_at_append:
  "groups_at (groups_append m k x) k' =
     (if k' = k then groups_at m k @ [x] else groups_at m k')"
  by (induction m) (auto simp: groups_at_def)

lemma check_match_clean:
  assumes "Target ch \<noteq> ''.''" and "os_Stat sy fs (full_target ch) = NotExist"
  shows "check_match sy fs fx st (i, ch) =
           st\<lparr>d_m := groups_append (d_m st) (full_target ch) (full_source ch, i)\<rparr>"
  using assms by (simp add: check_match_def Let_def full_target_def full_source_def)

lemma first_loop_clean:
  assumes "\<forall>ch \<in> set xs. Target ch \<noteq> ''.'' \<and> os_Stat sy fs (full_target ch) = NotExist"
    and "distinct (map full_target xs)"
    and "\<forall>k. length (groups_at (d_m st) k) \<le> 1"
    and "\<forall>ch \<in> set xs. groups_at (d_m st) (full_target ch) = []"
  shows "d_matches (foldl (check_match sy fs fx) st (zip [n..<n + length xs] xs)) = d_matches st \<and>
         d_conflicts (foldl (check_match sy fs fx) st (zip [n..<n + length xs] xs)) = d_conflicts st \<and>
         (\<forall>k. length (groups_at (d_m (foldl (check_match sy fs fx) st (zip [n..<n + length xs] xs))) k) \<le> 1)"
  using assms
proof (induction xs arbitrary: st n)
  case Nil
  then show ?case by simp
next
  case (Cons x xs)
  let ?st = "st\<lparr>d_m := groups_append (d_m st) (full_target x) (full_source x, n)\<rparr>"
  have step: "check_match sy fs fx st (n, x) = ?st"
    using Cons.prems(1) by (simp add: check_match_clean)
  have a: "\<forall>ch \<in> set xs. Target ch \<noteq> ''.'' \<and> os_Stat sy fs (full_target ch) = NotExist"
    using Cons.prems(1) by simp
  have b: "distinct (map full_target xs)" using Cons.prems(2) by simp
  have c: "\<forall>k. length (groups_at (d_m ?st) k) \<le> 1"
    using Cons.prems(3,4) by (simp add: groups_at_append)
  have d: "\<forall>ch \<in> set xs. groups_at (d_m ?st) (full_target ch) = []"
  proof
    fix ch assume ch: "ch \<in> set xs"
    then have "full_target ch \<in> full_target ` set xs" by (rule imageI)
    moreover have "full_target x \<notin> full_target ` set xs"
      using Cons.prems(2) by simp
    ultimately have "full_target ch \<noteq> full_target x" by metis
    then show "groups_at (d_m ?st) (full_target ch) = []"
      using Cons.prems(4) ch by (simp add: groups_at_append)
  qed
  show ?case
    unfolding zip_upt_Cons foldl_Cons step
    using Cons.IH [OF a b c d, of "Suc n"] by simp
qed

lemma report_duplicate_single:
  "length (groups_at (d_m st) k) \<le> 1 \<Longrightarrow> report_duplicate sy fs fx st k = st"
  by (simp add: report_duplicate_def Let_def)

lemma second_loop_single:
  "\<forall>k. length (groups_at (d_m st) k) \<le> 1 \<Longrightarrow> foldl (report_duplicate sy fs fx) st ks = st"
  by (induction ks) (simp_all add: report_duplicate_single)

lemma DetectConflicts_clean:
  assumes "\<forall>ch \<in> set ms. Target ch \<noteq> ''.'' \<and> os_Stat sy fs (full_target ch) = NotExist"
    and "distinct (map full_target ms)"
  shows "DetectConflicts sy fs fx ms = (ms, Map.empty)"
proof -
  let ?st0 = "\<lparr>d_matches = ms, d_conflicts = Map.empty, d_m = []\<rparr>"
  have "\<forall>k. length (groups_at (d_m ?st0) k) \<le> 1"
    and "\<forall>ch \<in> set ms. groups_at (d_m ?st0) (full_target ch) = []"
    by (simp_all add: groups_at_def)
  from first_loop_clean [OF assms this, of fx 0]
  have m: "d_matches (detect_first sy fs fx ms) = ms"
    and c: "d_conflicts (detect_first sy fs fx ms) = Map.empty"
    and g: "\<forall>k. length (groups_at (d_m (detect_first sy fs fx ms)) k) \<le> 1"
    by (simp_all add: detect_first_def)
  show ?thesis
    using m c by (simp add: DetectConflicts_def Let_def second_loop_single [OF g])
qed

lemma len_conflicts_empty: "len_conflicts Map.empty = 0"
  by (simp add: len_conflicts_def)

subsection \<open>Renaming leaves in the small file system\<close>

lemma simple_Rename_leaf:
  assumes "s \<in> set (entries fs)" and "t \<notin> set (entries fs)"
    and "\<forall>p \<in> set (entries fs). \<not> below s p"
  shows "\<exists>fs'. simple_Rename fs s t = Some fs' \<and>
           set (entries fs') = insert t (set (entries fs) - {s}) \<and> logs fs' = logs fs"
proof -
  have ne: "s \<noteq> t" using assms(1,2) by auto
  have f: "filter (\<lambda>p. p \<noteq> t) (entries fs) = entries fs"
    using assms(2) by (auto simp: filter_id_conv)
  have r: "map (relocate s t) (entries fs) = map (\<lambda>p. if p = s then t else p) (entries fs)"
    using assms(3) by (simp add: relocate_def)
  have "set (map (\<lambda>p. if p = s then t else p) (entries fs)) = insert t (set (entries fs) - {s})"
    using assms(1) by auto
  then show ?thesis
    using assms(1) ne by (simp add: simple_Rename_def f r)
qed

lemma apply_change_leaf:
  assumes "CHR ''/'' \<notin> set (Target ch)"
    and "full_source ch \<in> set (entries fs)" and "full_target ch \<notin> set (entries fs)"
    and "\<forall>p \<in> set (entries fs). \<not> below (full_source ch) p"
  shows "\<exists>fs' tr'. apply_change simple_sys ch fs tr = (None, fs', tr') \<and>
           set (entries fs') = insert (full_target ch) (set (entries fs) - {full_source ch}) \<and>
           logs fs' = logs fs"
proof -
  obtain fs' where "simple_Rename fs (full_source ch) (full_target ch) = Some fs'"
    and "set (entries fs') = insert (full_target ch) (set (entries fs) - {full_source ch})"
    and "logs fs' = logs fs"
    using simple_Rename_leaf [OF assms(2,3,4)] by blast
  then show ?thesis
    using assms(1)
    by (simp add: apply_change_def Let_def simple_sys_def full_source_def full_target_def)
qed

lemma apply_changes_leaf:
  assumes "\<forall>ch \<in> set L. CHR ''/'' \<notin> set (Target ch)"
    and "distinct (map full_source L)" and "distinct (map full_target L)"
    and "set (map full_source L) \<subseteq> set (entries fs)"
    and "set (map full_target L) \<inter> set (entries fs) = {}"
    and "\<forall>ch \<in> set L. \<forall>p \<in> set (entries fs) \<union> set (map full_target L). \<not> below (full_source ch) p"
  shows "\<exists>fs' tr'. apply_changes simple_sys True L fs tr = (None, fs', tr') \<and>
           set (entries fs') = (set (entries fs) - set (map full_source L)) \<union> set (map full_target L) \<and>
           logs fs' = logs fs"
  using assms
proof (induction L arbitrary: fs tr)
  case Nil
  then show ?case by simp
next
  case (Cons ch L)
  let ?s = "full_source ch" and ?t = "full_target ch"
  have s: "?s \<in> set (entries fs)" and t: "?t \<notin> set (entries fs)"
    using Cons.prems(4,5) by auto
  have "\<forall>p \<in> set (entries fs). \<not> below ?s p" using Cons.prems(6) by simp
  then obtain fs1 tr1 where step: "apply_change simple_sys ch fs tr = (None, fs1, tr1)"
    and e1: "set (entries fs1) = insert ?t (set (entries fs) - {?s})"
    and l1: "logs fs1 = logs fs"
    using apply_change_leaf [of ch fs tr] Cons.prems(1) s t by auto
  have sL: "?s \<notin> set (map full_source L)" and tL: "?t \<notin> set (map full_target L)"
    using Cons.prems(2,3) by simp_all
  have tS: "?t \<notin> set (map full_source L)" using Cons.prems(4) t by auto
  have a: "\<forall>c \<in> set L. CHR ''/'' \<notin> set (Target c)" using Cons.prems(1) by simp
  have b: "distinct (map full_source L)" and c: "distinct (map full_target L)"
    using Cons.prems(2,3) by simp_all
  have d: "set (map full_source L) \<subseteq> set (entries fs1)"
    using Cons.prems(4) sL unfolding e1 by (simp only: list.map list.set) blast
  have e: "set (map full_target L) \<inter> set (entries fs1) = {}"
    using Cons.prems(5) tL unfolding e1 by (simp only: list.map list.set) blast
  have f: "\<forall>c \<in> set L. \<forall>p \<in> set (entries fs1) \<union> set (map full_target L). \<not> below (full_source c) p"
    using Cons.prems(6) unfolding e1 by (simp only: list.map list.set) blast
  obtain fs' tr' where rest: "apply_changes simple_sys True L fs1 tr1 = (None, fs', tr')"
    and e2: "set (entries fs') = (set (entries fs1) - set (map full_source L)) \<union> set (map full_target L)"
    and l2: "logs fs' = logs fs1"
    using Cons.IH [OF a b c d e f, of tr1] by blast
  have "set (entries fs') =
        (set (entries fs) - set (map full_source (ch # L))) \<union> set (map full_target (ch # L))"
    using tS unfolding e2 e1 by (simp only: list.map list.set) blast
  then show ?case
    using step rest l1 l2 by simp
qed

subsection \<open>The insertion sort as a function on lists\<close>

lemma length_rins: "length (rins lessf x ys) = Suc (length ys)"
  by (induction ys) simp_all

lemma length_gins: "length (gins lessf x P) = Suc (length P)"
  by (simp add: gins_def length_rins)

lemma gins_snoc:
  "gins lessf x (P @ [y]) = (if lessf x y then gins lessf x P @ [y] else P @ [y, x])"
  by (simp add: gins_def)

lemma siftLeft_gins: "siftLeft lessf 0 (length P) (P @ x # R) = gins lessf x P @ R"
proof (induction P arbitrary: R rule: rev_induct)
  case Nil
  then show ?case by (simp add: gins_def)
next
  case (snoc y P)
  have n1: "((P @ [y]) @ x # R) ! Suc (length P) = x"
    by (simp add: nth_append)
  have n0: "((P @ [y]) @ x # R) ! length P = y"
    by (simp add: nth_append)
  have sw: "((P @ [y]) @ x # R)[Suc (length P) := y, length P := x] = P @ x # y # R"
    by (simp add: list_update_append)
  show ?case
  proof (cases "lessf x y")
    case True
    then show ?thesis
      using snoc.IH [of "y # R"] by (simp add: n1 n0 sw gins_snoc del: append_assoc)
  next
    case False
    then show ?thesis
      by (simp add: n1 n0 gins_snoc del: append_assoc)
  qed
qed

lemma insertion_fold:
  "0 < k \<Longrightarrow> k \<le> length xs \<Longrightarrow>
   foldl (\<lambda>ys i. siftLeft lessf 0 i ys) xs [1..<k] =
     foldl (\<lambda>P x. gins lessf x P) [] (take k xs) @ drop k xs"
proof (induction k)
  case 0
  then show ?case by simp
next
  case (Suc k)
  show ?case
  proof (cases "k = 0")
    case True
    then obtain x rest where "xs = x # rest" using Suc.prems by (cases xs) auto
    then show ?thesis using True by (simp add: gins_def)
  next
    case False
    let ?A = "foldl (\<lambda>P x. gins lessf x P) [] (take k xs)"
    have ih: "foldl (\<lambda>ys i. siftLeft lessf 0 i ys) xs [1..<k] = ?A @ drop k xs"
      using Suc False by simp
    have lenA: "length ?A = k"
    proof -
      have "length (foldl (\<lambda>P x. gins lessf x P) A zs) = length A + length zs" for A zs
        by (induction zs arbitrary: A) (simp_all add: length_gins)
      then show ?thesis using Suc.prems by simp
    qed
    have d: "drop k xs = xs ! k # drop (Suc k) xs"
      using Suc.prems by (simp add: Cons_nth_drop_Suc)
    have t: "take (Suc k) xs = take k xs @ [xs ! k]"
      using Suc.prems by (simp add: take_Suc_conv_app_nth)
    have "foldl (\<lambda>ys i. siftLeft lessf 0 i ys) xs [1..<Suc k] =
          siftLeft lessf 0 k (?A @ xs ! k # drop (Suc k) xs)"
      using False ih d by simp
    also have "\<dots> = gins lessf (xs ! k) ?A @ drop (Suc k) xs"
      using siftLeft_gins [of lessf ?A "xs ! k" "drop (Suc k) xs"] lenA by simp
    finally show ?thesis by (simp add: t)
  qed
qed

lemma SliceStable_fold: "SliceStable lessf xs = foldl (\<lambda>P x. gins lessf x P) [] xs"
proof (cases xs)
  case Nil
  then show ?thesis by (simp add: SliceStable_def insertionSort_func_def)
next
  case (Cons x rest)
  then show ?thesis
    using insertion_fold [of "length xs" xs lessf]
    by (simp add: SliceStable_def insertionSort_func_def)
qed

lemma mset_rins: "mset (rins lessf x ys) = add_mset x (mset ys)"
  by (induction ys) simp_all

lemma mset_gins: "mset (gins lessf x P) = add_mset x (mset P)"
  by (simp add: gins_def mset_rins)

lemma mset_fold_gins: "mset (foldl (\<lambda>P x. gins lessf x P) A xs) = mset A + mset xs"
  by (induction xs arbitrary: A) (simp_all add: mset_gins)

lemma mset_SliceStable: "mset (SliceStable lessf xs) = mset xs"
  by (simp add: SliceStable_fold mset_fold_gins)

lemma sorted_rins:
  fixes key :: "'a \<Rightarrow> 'k::linorder"
  assumes "sorted (map key (rev ys))"
  shows "sorted (map key (rev (rins (\<lambda>a b. key a < key b) x ys)))"
  using assms
proof (induction ys)
  case Nil
  then show ?case by simp
next
  case (Cons y ys)
  have s: "sorted (map key (rev ys))" and le: "\<forall>z \<in> set ys. key z \<le> key y"
    using Cons.prems by (auto simp: sorted_append)
  show ?case
  proof (cases "key x < key y")
    case True
    have "set (rins (\<lambda>a b. key a < key b) x ys) = insert x (set ys)"
      using mset_rins [of "\<lambda>a b. key a < key b" x ys] by (metis mset_eq_setD set_mset_add_mset_insert set_mset_mset)
    then show ?thesis
      using True Cons.IH [OF s] le by (auto simp: sorted_append)
  next
    case False
    then show ?thesis
      using Cons.prems le by (auto simp: sorted_append)
  qed
qed

lemma sorted_fold_gins:
  fixes key :: "'a \<Rightarrow> 'k::linorder"
  shows "sorted (map key A) \<Longrightarrow>
         sorted (map key (foldl (\<lambda>P x. gins (\<lambda>a b. key a < key b) x P) A xs))"
proof (induction xs arbitrary: A)
  case Nil
  then show ?case by simp
next
  case (Cons x xs)
  have "sorted (map key (gins (\<lambda>a b. key a < key b) x A))"
    using sorted_rins [of key "rev A" x] Cons.prems by (simp add: gins_def)
  then show ?case using Cons.IH by simp
qed

lemma sorted_SliceStable:
  fixes key :: "'a \<Rightarrow> 'k::linorder"
  shows "sorted (map key (SliceStable (\<lambda>a b. key a < key b) xs))"
  by (simp add: SliceStable_fold sorted_fold_gins)

subsection \<open>Running a plain batch\<close>

lemma plain_batch_clean:
  assumes "plain_batch fs ms"
  shows "DetectConflicts simple_sys fs fx ms = (ms, Map.empty)"
proof -
  have "\<forall>ch \<in> set ms. Target ch \<noteq> ''.'' \<and> os_Stat simple_sys fs (full_target ch) = NotExist"
    using assms by (auto simp: plain_batch_def simple_sys_def simple_Stat_def)
  moreover have "distinct (map full_target ms)"
    using assms by (simp add: plain_batch_def)
  ultimately show ?thesis by (rule DetectConflicts_clean)
qed

lemma plain_batch_renames:
  assumes "plain_batch fs ms"
  shows "\<exists>fs' tr'. apply_changes simple_sys True ms fs tr = (None, fs', tr') \<and>
           set (entries fs') =
             (set (entries fs) - set (map full_source ms)) \<union> set (map full_target ms) \<and>
           logs fs' = logs fs"
proof (rule apply_changes_leaf)
  show "\<forall>ch \<in> set ms. CHR ''/'' \<notin> set (Target ch)"
    using assms by (simp add: plain_batch_def)
  show "distinct (map full_source ms)" "distinct (map full_target ms)"
    "set (map full_source ms) \<subseteq> set (entries fs)"
    "set (map full_target ms) \<inter> set (entries fs) = {}"
    using assms by (simp_all add: plain_batch_def)
  show "\<forall>ch \<in> set ms. \<forall>p \<in> set (entries fs) \<union> set (map full_target ms).
          \<not> below (full_source ch) p"
    using assms unfolding plain_batch_def by blast
qed

lemma simple_sys_log:
  "writeLog simple_sys fs p ms = (True, fs\<lparr>logs := (p, ms) # logs fs\<rparr>)"
  "readLog simple_sys fs p = map_of (logs fs) p"
  by (simp_all add: simple_sys_def)

lemma Apply_plain_batch:
  assumes "plain_batch fs (matches op)" and "matches op \<noteq> []" and "exec op"
  shows "err (Apply simple_sys op fs) = None \<and>
         matches (op_after (Apply simple_sys op fs)) = matches op \<and>
         set (entries (fs_after (Apply simple_sys op fs))) =
           (set (entries fs) - set (map full_source (matches op))) \<union>
             set (map full_target (matches op)) \<and>
         (outputFile op \<noteq> [] \<longrightarrow>
            readLog simple_sys (fs_after (Apply simple_sys op fs)) (outputFile op) =
              Some (matches op))"
proof -
  obtain fs' tr' where r: "apply_changes simple_sys True (matches op) fs [] = (None, fs', tr')"
    and e: "set (entries fs') =
             (set (entries fs) - set (map full_source (matches op))) \<union>
               set (map full_target (matches op))"
    using plain_batch_renames [OF assms(1), of "[]"] by blast
  show ?thesis
    using assms(2,3) r e
    by (simp add: Apply_def Let_def plain_batch_clean [OF assms(1)] len_conflicts_empty
        WriteToFile_def simple_sys_log)
qed

lemma swap_change_paths:
  "full_source (swap_change c) = full_target c"
  "full_target (swap_change c) = full_source c"
  "Target (swap_change c) = Source c"
  "Source (swap_change c) = Target c"
  by (simp_all add: swap_change_def full_source_def full_target_def)

lemma plain_batch_swapped:
  assumes "plain_batch fs ms"
    and "set (entries fs1) = (set (entries fs) - set (map full_source ms)) \<union> set (map full_target ms)"
    and "mset L = mset (map swap_change ms)"
  shows "plain_batch fs1 L"
proof -
  have setL: "set L = swap_change ` set ms"
    using assms(3) by (metis mset_eq_setD set_map)
  have ms: "mset (map full_source L) = mset (map full_target ms)"
    using assms(3) by (metis (no_types, lifting) map_map mset_map o_def swap_change_paths(1) map_cong)
  have mt: "mset (map full_target L) = mset (map full_source ms)"
    using assms(3) by (metis (no_types, lifting) map_map mset_map o_def swap_change_paths(2) map_cong)
  have ss: "set (map full_source L) = set (map full_target ms)"
    using ms by (rule mset_eq_setD)
  have st: "set (map full_target L) = set (map full_source ms)"
    using mt by (rule mset_eq_setD)
  have d1: "distinct (map full_source L)"
    using ms assms(1) by (metis mset_eq_imp_distinct_iff plain_batch_def)
  have d2: "distinct (map full_target L)"
    using mt assms(1) by (metis mset_eq_imp_distinct_iff plain_batch_def)
  have sub: "set (map full_source ms) \<subseteq> set (entries fs)"
    and dis: "set (map full_target ms) \<inter> set (entries fs) = {}"
    using assms(1) by (simp_all add: plain_batch_def)
  have a: "\<forall>ch \<in> set L. Target ch \<noteq> ''.'' \<and> Source ch \<noteq> ''.'' \<and>
         CHR ''/'' \<notin> set (Target ch) \<and> CHR ''/'' \<notin> set (Source ch)"
    using assms(1) unfolding setL plain_batch_def by (auto simp: swap_change_paths)
  have b: "set (map full_source L) \<subseteq> set (entries fs1)"
    unfolding ss assms(2) by blast
  have c: "set (map full_target L) \<inter> set (entries fs1) = {}"
    unfolding st assms(2) using sub dis by blast
  have flat: "\<forall>ch \<in> set ms.
         \<forall>p \<in> set (entries fs) \<union> set (map full_source ms) \<union> set (map full_target ms).
           \<not> below (full_source ch) p \<and> \<not> below (full_target ch) p"
    using assms(1) by (simp add: plain_batch_def)
  have d: "\<forall>ch \<in> set L.
         \<forall>p \<in> set (entries fs1) \<union> set (map full_source L) \<union> set (map full_target L).
           \<not> below (full_source ch) p \<and> \<not> below (full_target ch) p"
  proof (intro ballI)
    fix ch p
    assume ch: "ch \<in> set L"
      and p: "p \<in> set (entries fs1) \<union> set (map full_source L) \<union> set (map full_target L)"
    obtain c0 where c0: "c0 \<in> set ms" and chc: "ch = swap_change c0"
      using ch setL by auto
    have "p \<in> set (entries fs) \<union> set (map full_source ms) \<union> set (map full_target ms)"
      using p unfolding ss st assms(2) by blast
    then have "\<not> below (full_source c0) p \<and> \<not> below (full_target c0) p"
      using flat c0 by blast
    then show "\<not> below (full_source ch) p \<and> \<not> below (full_target ch) p"
      unfolding chc by (simp add: swap_change_paths)
  qed
  show ?thesis
    unfolding plain_batch_def using a d1 d2 b c d by blast
qed

text \<open>
  Where \<open>Undo\<close> does restore.  \<open>Undo\<close> reads the log, swaps source and target of every
  entry, sorts the entries by ascending base directory and hands them to \<open>Apply\<close>,
  conflict detection included.  For a plain batch that was run in execute mode with a
  log, on the small file system, both runs succeed, the list that \<open>Undo\<close> applies is a
  rearrangement of the swapped entries in ascending order of the base directory, and
  the paths that exist after the undo are those that existed before the run.
\<close>

lemma Undo_restores_plain_batch:
  assumes "plain_batch fs (matches op)" and "matches op \<noteq> []"
    and "exec op" and "outputFile op \<noteq> []"
    and "undoFile uop = outputFile op" and "exec uop"
  shows "err (Apply simple_sys op fs) = None \<and>
         err (Undo simple_sys uop (fs_after (Apply simple_sys op fs))) = None \<and>
         set (entries (fs_after (Undo simple_sys uop (fs_after (Apply simple_sys op fs))))) =
           set (entries fs) \<and>
         mset (matches (op_after (Undo simple_sys uop (fs_after (Apply simple_sys op fs))))) =
           mset (map swap_change (matches op)) \<and>
         sorted (map BaseDir
           (matches (op_after (Undo simple_sys uop (fs_after (Apply simple_sys op fs))))))"
proof -
  let ?ms = "matches op"
  let ?fs1 = "fs_after (Apply simple_sys op fs)"
  let ?L = "SliceStable (\<lambda>mi mj. BaseDir mi < BaseDir mj) (map swap_change ?ms)"
  let ?uop = "uop\<lparr>matches := ?L\<rparr>"
  have fwd: "err (Apply simple_sys op fs) = None"
    and e1: "set (entries ?fs1) =
           (set (entries fs) - set (map full_source ?ms)) \<union> set (map full_target ?ms)"
    and lg: "readLog simple_sys ?fs1 (outputFile op) = Some ?ms"
    using Apply_plain_batch [OF assms(1,2,3)] assms(4) by simp_all
  have mL: "mset ?L = mset (map swap_change ?ms)"
    by (rule mset_SliceStable)
  have sL: "sorted (map BaseDir ?L)"
    by (rule sorted_SliceStable)
  have neL: "?L \<noteq> []"
    using mL assms(2) by (metis Nil_is_map_conv mset_zero_iff)
  have undo: "Undo simple_sys uop ?fs1 = Apply simple_sys ?uop ?fs1"
    using assms(4,5) lg by (simp add: Undo_def)
  have pb: "plain_batch ?fs1 (matches ?uop)"
    using plain_batch_swapped [OF assms(1) e1 mL] by simp
  have ne: "matches ?uop \<noteq> []" using neL by simp
  have ex: "exec ?uop" using assms(6) by simp
  have r: "err (Apply simple_sys ?uop ?fs1) = None"
    and m: "matches (op_after (Apply simple_sys ?uop ?fs1)) = ?L"
    and e2: "set (entries (fs_after (Apply simple_sys ?uop ?fs1))) =
             (set (entries ?fs1) - set (map full_source ?L)) \<union> set (map full_target ?L)"
    using Apply_plain_batch [OF pb ne ex] by simp_all
  have ss: "set (map full_source ?L) = set (map full_target ?ms)"
    using mL by (metis (no_types, lifting) map_map mset_map o_def swap_change_paths(1) map_cong mset_eq_setD)
  have st: "set (map full_target ?L) = set (map full_source ?ms)"
    using mL by (metis (no_types, lifting) map_map mset_map o_def swap_change_paths(2) map_cong mset_eq_setD)
  have sub: "set (map full_source ?ms) \<subseteq> set (entries fs)"
    and dis: "set (map full_target ?ms) \<inter> set (entries fs) = {}"
    using assms(1) by (simp_all add: plain_batch_def)
  have restored: "set (entries (fs_after (Apply simple_sys ?uop ?fs1))) = set (entries fs)"
    unfolding e2 ss st e1 using sub dis by blast
  show ?thesis
    unfolding undo using fwd r restored m mL sL by simp
qed



lemma Undo_restores_plain_batch_example:
  "matches op_plain \<noteq> [] \<and> exec op_plain \<and> outputFile op_plain \<noteq> [] \<and>
   undoFile (op_undo False) = outputFile op_plain \<and> exec (op_undo False) \<and>
   entries (fs_after (Apply simple_sys op_plain fs_d)) = [''d'', ''d/x'', ''d/y''] \<and>
   err (Undo simple_sys (op_undo False) (fs_after (Apply simple_sys op_plain fs_d))) = None \<and>
   set (entries (fs_after
          (Undo simple_sys (op_undo False) (fs_after (Apply simple_sys op_plain fs_d))))) =
     set (entries fs_d)"
proof -
  have p: "plain_batch fs_d (matches op_plain)" by code_simp
  have m: "matches op_plain \<noteq> []" by (simp add: op_plain_def)
  have e: "exec op_plain" by (simp add: op_plain_def)
  have out: "outputFile op_plain \<noteq> []" by (simp add: op_plain_def)
  have u: "undoFile (op_undo False) = outputFile op_plain"
    by (simp add: op_undo_def op_plain_def)
  have eu: "exec (op_undo False)" by (simp add: op_undo_def)
  have f: "entries (fs_after (Apply simple_sys op_plain fs_d)) = [''d'', ''d/x'', ''d/y'']"
    by code_simp
  show ?thesis
    using Undo_restores_plain_batch [OF p m e out u eu] m e out u eu f by simp
qed

text \<open>
  A directory that is renamed after a file in it is restored as well: the ascending
  order of the base directories puts the directory back before the file.
\<close>

lemma Undo_restores_nested_example:
  "err (Apply simple_sys op_nested fs_nested) = None \<and>
   entries (fs_after (Apply simple_sys op_nested fs_nested)) = [''a2'', ''a2/g''] \<and>
   matches (op_after (Undo simple_sys (op_undo False)
              (fs_after (Apply simple_sys op_nested fs_nested)))) =
     [\<lparr>BaseDir = ''.'', Source = ''a2'', Target = ''a'', IsDir = True\<rparr>,
      \<lparr>BaseDir = ''a'', Source = ''g'', Target = ''f'', IsDir = False\<rparr>] \<and>
   err (Undo simple_sys (op_undo False)
          (fs_after (Apply simple_sys op_nested fs_nested))) = None \<and>
   entries (fs_after (Undo simple_sys (op_undo False)
              (fs_after (Apply simple_sys op_nested fs_nested)))) = [''a'', ''a/f'']"
  by code_simp

text \<open>
  C8 at an input where the code does not do what its comments announce (\<open>Undo\<close>
  reverses a successful renaming operation; \<open>WriteToFile\<close> writes it down so that it
  may be reversed).  The run \<open>op_forward\<close> succeeds and writes its log: auto-fix has left
  \<open>a\<close> as it is, and \<open>b\<close> has become \<open>c\<close>.  The undo of that log finds the target \<open>d/a\<close>
  of the entry of \<open>a\<close> on the file system: without auto-fix it returns the conflict
  error and \<open>c\<close> stays, with auto-fix it renames \<open>a\<close> to a new name.  Neither way the
  entries are those from before the run, \<open>d\<close>, \<open>d/a\<close> and \<open>d/b\<close>.
\<close>

theorem Undo_after_fix_does_not_restore:
  "err (Apply simple_sys op_forward fs_d) = None \<and>
   readLog simple_sys (fs_after (Apply simple_sys op_forward fs_d)) ''log'' =
     Some [\<lparr>BaseDir = ''d'', Source = ''a'', Target = ''a'', IsDir = False\<rparr>,
           \<lparr>BaseDir = ''d'', Source = ''b'', Target = ''c'', IsDir = False\<rparr>] \<and>
   err (Undo simple_sys (op_undo False) (fs_after (Apply simple_sys op_forward fs_d))) =
     Some ConflictError \<and>
   entries (fs_after
     (Undo simple_sys (op_undo False) (fs_after (Apply simple_sys op_forward fs_d)))) =
     [''d'', ''d/a'', ''d/c''] \<and>
   err (Undo simple_sys (op_undo True) (fs_after (Apply simple_sys op_forward fs_d))) = None \<and>
   entries (fs_after
     (Undo simple_sys (op_undo True) (fs_after (Apply simple_sys op_forward fs_d)))) =
     [''d'', ''d/a1'', ''d/b'']"
  by code_simp

end
